theory Spec2Isabelle
  imports Main "HOL-Library.Word"
begin

section \<open>Values shared by the package\<close>

text \<open>
  The Go package \<open>app\<close> (file \<open>infra.go\<close>) talks to two outside resources: the
  file system (through \<open>os.Create\<close> and \<open>File.Write\<close>) and a relational store
  (through \<open>database/sql\<close>). Both are modelled as explicit state. Every Go
  \<open>error\<close> value that can reach the code is a constructor of \<open>error\<close>; a \<open>nil\<close>
  error is \<open>None\<close>.
\<close>

type_synonym byte = "8 word"

datatype error =
    ErrNoRows                 \<comment> \<open>\<open>sql.ErrNoRows\<close>, the sentinel of \<open>Row.Scan\<close>\<close>
  | DriverError string        \<comment> \<open>an error raised by the storage engine or its driver\<close>
  | PathError string string   \<comment> \<open>\<open>*os.PathError\<close>: operation and path\<close>
  | ErrInvalid                \<comment> \<open>\<open>os.ErrInvalid\<close>, a method called on a nil \<open>*os.File\<close>\<close>

text \<open>One record of \<open>slog.Error(msg, "error", err)\<close>.\<close>

type_synonym log_entry = "string \<times> error"

section \<open>The image store\<close>

text \<open>
  The file system: the contents of every existing file, the paths at which
  \<open>os.Create\<close> fails, and for every path the number of bytes a write accepts
  before it fails (\<open>None\<close>: no limit).
\<close>

record filesystem =
  files :: "string \<Rightarrow> byte list option"
  create_fails :: "string \<Rightarrow> bool"
  write_quota :: "string \<Rightarrow> nat option"
  fs_log :: "log_entry list"

text \<open>
  \<open>os.Create\<close> creates or truncates the named file. The handle is the path of
  the open file; \<open>None\<close> is the nil \<open>*os.File\<close> returned with an error.
\<close>

definition os_Create :: "filesystem \<Rightarrow> string \<Rightarrow> (string option \<times> error option) \<times> filesystem" where
  "os_Create fs name =
     (if create_fails fs name
      then ((None, Some (PathError ''open'' name)), fs)
      else ((Some name, None), fs\<lparr>files := (files fs)(name := Some [])\<rparr>))"

text \<open>
  \<open>File.Write\<close>: on a nil file it returns \<open>(0, os.ErrInvalid)\<close>; otherwise it
  appends the bytes the device accepts and returns a non-nil error exactly
  when it wrote fewer bytes than it was given.
\<close>

definition File_Write :: "filesystem \<Rightarrow> string option \<Rightarrow> byte list \<Rightarrow> (nat \<times> error option) \<times> filesystem" where
  "File_Write fs file b =
     (case file of
        None \<Rightarrow> ((0, Some ErrInvalid), fs)
      | Some path \<Rightarrow>
          (let n = (case write_quota fs path of None \<Rightarrow> length b | Some q \<Rightarrow> min q (length b));
               old = (case files fs path of None \<Rightarrow> [] | Some c \<Rightarrow> c);
               fs' = fs\<lparr>files := (files fs)(path := Some (old @ take n b))\<rparr>
           in ((n, if n < length b then Some (PathError ''write'' path) else None), fs')))"

definition slog_Error_fs :: "filesystem \<Rightarrow> string \<Rightarrow> error \<Rightarrow> filesystem" where
  "slog_Error_fs fs msg err = fs\<lparr>fs_log := fs_log fs @ [(msg, err)]\<rparr>"

text \<open>
  \<open>StoreImage\<close> (infra.go, lines 143 to 161). Both \<open>return\<close> statements of the
  error branches are commented out in the source, so control falls through to
  the write and then to \<open>return nil\<close>. The deferred \<open>file.Close()\<close> changes
  nothing the model observes.
\<close>

definition StoreImage :: "filesystem \<Rightarrow> string \<Rightarrow> byte list \<Rightarrow> error option \<times> filesystem" where
  "StoreImage fs file_name img =
     (let ((file, err), fs1) = os_Create fs file_name;
          fs2 = (case err of
                   Some e \<Rightarrow> slog_Error_fs fs1 ''failed to create image file: '' e
                 | None \<Rightarrow> fs1);
          ((n, err'), fs3) = File_Write fs2 file img;
          fs4 = (case err' of
                   Some e \<Rightarrow> slog_Error_fs fs3 ''failed to write image: '' e
                 | None \<Rightarrow> fs3)
      in (None, fs4))"

section \<open>The item repository\<close>

record Item =
  ID :: int
  Name :: string
  Category :: string
  ImageName :: string

text \<open>\<open>Item{}\<close>, the zero value.\<close>

definition Item_zero :: Item where
  "Item_zero = \<lparr>ID = 0, Name = [], Category = [], ImageName = []\<rparr>"

record itemRepository =
  fileName :: string

definition NewItemRepository :: itemRepository where
  "NewItemRepository = \<lparr>fileName = ''items.json''\<rparr>"

definition GetFileName :: "itemRepository \<Rightarrow> string" where
  "GetFileName i = fileName i"

subsection \<open>The store behind \<open>database/sql\<close>\<close>

text \<open>
  Modelled from the spec: the table declarations, which are not part of the
  source files. Section 6 of the specification gives
  \<open>items(id, name, category_id, image_name)\<close> and \<open>categories(id, name)\<close>; the
  \<open>Scan\<close> calls of \<open>GetItems\<close> read the columns in this order. A table is the
  list of its rows in storage order.
\<close>

record items_row =
  items_id :: int
  items_name :: string
  items_category_id :: int
  items_image_name :: string

record categories_row =
  categories_id :: int
  categories_name :: string

text \<open>
  The state the methods run in: the repository object the receiver points to,
  the two tables, the log, and a fault schedule. Every call into
  \<open>database/sql\<close> that may fail takes the next entry of the schedule:
  \<open>Some m\<close> makes the call fail with the driver's error \<open>m\<close>, \<open>None\<close> (or an
  exhausted schedule) lets it succeed. The methods below take the state in
  place of the receiver; the \<open>context.Context\<close> argument of \<open>GetItems\<close> and
  \<open>Insert\<close> is not used by the source and is left out.
\<close>

record world =
  self :: itemRepository
  items_tbl :: "items_row list"
  categories_tbl :: "categories_row list"
  faults :: "string option list"
  logs :: "log_entry list"

definition next_fault :: "world \<Rightarrow> error option \<times> world" where
  "next_fault w =
     (case faults w of
        [] \<Rightarrow> (None, w)
      | f # fs \<Rightarrow> (map_option DriverError f, w\<lparr>faults := fs\<rparr>))"

definition slog_Error :: "world \<Rightarrow> string \<Rightarrow> error \<Rightarrow> world" where
  "slog_Error w msg err = w\<lparr>logs := logs w @ [(msg, err)]\<rparr>"

text \<open>
  \<open>sql.Open\<close> only looks the driver up and connects to nothing; with the
  \<open>sqlite3\<close> driver registered by the import at line 11 its entry of the
  schedule is \<open>None\<close> in every run of the program. The model keeps the failing
  case because every method has a branch for it.
\<close>

definition sql_Open :: "world \<Rightarrow> error option \<times> world" where
  "sql_Open w = next_fault w"

text \<open>
  Modelled from the spec: identifiers are assigned by the store on insert
  (section 3). The rule is SQLite's: one more than the largest identifier in
  the table, 1 in an empty table.
\<close>

definition next_rowid :: "int list \<Rightarrow> int" where
  "next_rowid ids = (if ids = [] then 1 else Max (set ids) + 1)"

definition insert_category :: "string \<Rightarrow> world \<Rightarrow> world" where
  "insert_category name w =
     w\<lparr>categories_tbl := categories_tbl w @
        [\<lparr>categories_id = next_rowid (map categories_id (categories_tbl w)),
          categories_name = name\<rparr>]\<rparr>"

definition insert_item :: "string \<Rightarrow> int \<Rightarrow> string \<Rightarrow> world \<Rightarrow> world" where
  "insert_item name category_id image_name w =
     w\<lparr>items_tbl := items_tbl w @
        [\<lparr>items_id = next_rowid (map items_id (items_tbl w)),
          items_name = name,
          items_category_id = category_id,
          items_image_name = image_name\<rparr>]\<rparr>"

text \<open>\<open>db.Exec\<close>: a failed statement leaves the tables as they were.\<close>

definition db_Exec :: "world \<Rightarrow> (world \<Rightarrow> world) \<Rightarrow> error option \<times> world" where
  "db_Exec w stmt =
     (case next_fault w of
        (Some e, w') \<Rightarrow> (Some e, w')
      | (None, w') \<Rightarrow> (None, stmt w'))"

text \<open>
  The result sets of the four \<open>SELECT\<close> statements of the source. The inner
  join pairs every row of \<open>items\<close>, in storage order, with the rows of
  \<open>categories\<close> whose identifier is its \<open>category_id\<close>; the comparisons of names
  are exact.
\<close>

definition inner_join :: "items_row list \<Rightarrow> categories_row list \<Rightarrow> (items_row \<times> categories_row) list" where
  "inner_join its cs =
     concat (map (\<lambda>i. map (\<lambda>c. (i, c)) (filter (\<lambda>c. items_category_id i = categories_id c) cs)) its)"

definition select_items_join :: "world \<Rightarrow> (items_row \<times> categories_row) list" where
  "select_items_join w = inner_join (items_tbl w) (categories_tbl w)"

definition select_items_join_by_id :: "world \<Rightarrow> int \<Rightarrow> (items_row \<times> categories_row) list" where
  "select_items_join_by_id w id' = filter (\<lambda>(i, c). items_id i = id') (select_items_join w)"

definition select_items_by_name :: "world \<Rightarrow> string \<Rightarrow> items_row list" where
  "select_items_by_name w keyword = filter (\<lambda>i. items_name i = keyword) (items_tbl w)"

definition select_category_id_by_name :: "world \<Rightarrow> string \<Rightarrow> int list" where
  "select_category_id_by_name w name =
     map categories_id (filter (\<lambda>c. categories_name c = name) (categories_tbl w))"

text \<open>
  \<open>db.Query\<close> returns the cursor over the result set, or an error.
  \<open>db.QueryRow\<close> never returns an error: it keeps it in the \<open>Row\<close>, and
  \<open>Row.Scan\<close> reports it.
\<close>

definition db_Query :: "world \<Rightarrow> 'r list \<Rightarrow> ('r list \<times> error option) \<times> world" where
  "db_Query w result =
     (case next_fault w of
        (Some e, w') \<Rightarrow> (([], Some e), w')
      | (None, w') \<Rightarrow> ((result, None), w'))"

datatype 'r Row = Row "error option" "'r list"

definition db_QueryRow :: "world \<Rightarrow> 'r list \<Rightarrow> 'r Row \<times> world" where
  "db_QueryRow w result =
     (case next_fault w of
        (Some e, w') \<Rightarrow> (Row (Some e) [], w')
      | (None, w') \<Rightarrow> (Row None result, w'))"

text \<open>
  \<open>Row.Scan\<close>: the error of the query if there is one; then the first
  \<open>Next\<close>, which may fail; \<open>sql.ErrNoRows\<close> on an empty result set; then the
  conversion of the first row, which may fail. The other rows are discarded.
\<close>

definition Row_Scan :: "world \<Rightarrow> 'r Row \<Rightarrow> (error + 'r) \<times> world" where
  "Row_Scan w row =
     (case row of Row err rs \<Rightarrow>
        (case err of
           Some e \<Rightarrow> (Inl e, w)
         | None \<Rightarrow>
             (case next_fault w of
                (Some e, w1) \<Rightarrow> (Inl e, w1)
              | (None, w1) \<Rightarrow>
                  (case rs of
                     [] \<Rightarrow> (Inl ErrNoRows, w1)
                   | r # _ \<Rightarrow>
                       (case next_fault w1 of
                          (Some e, w2) \<Rightarrow> (Inl e, w2)
                        | (None, w2) \<Rightarrow> (Inr r, w2))))))"

text \<open>
  \<open>strconv.FormatInt(n, 10)\<close>: what \<open>Scan\<close> stores when an integer column is
  read into a \<open>*string\<close>.
\<close>

fun FormatUint :: "nat \<Rightarrow> string" where
  "FormatUint n =
     (if n < 10 then [''0123456789'' ! n]
      else FormatUint (n div 10) @ [''0123456789'' ! (n mod 10)])"

definition FormatInt :: "int \<Rightarrow> string" where
  "FormatInt i = (if i < 0 then CHR ''-'' # FormatUint (nat (- i)) else FormatUint (nat i))"

declare FormatUint.simps [simp del]

subsection \<open>The methods of \<open>itemRepository\<close>\<close>

text \<open>
  The \<open>for rows.Next()\<close> loop of \<open>GetItems\<close> (lines 68 to 89) over the rows
  still to be read. A failing \<open>Next\<close> ends the loop with \<open>rows.Err()\<close> set,
  which the code checks after the loop; a failing \<open>Scan\<close> returns at once.
\<close>

fun GetItems_loop :: "world \<Rightarrow> (items_row \<times> categories_row) list \<Rightarrow> Item list \<Rightarrow> (Item list \<times> error option) \<times> world" where
  "GetItems_loop w [] acc =
     (case next_fault w of
        (Some err, w1) \<Rightarrow> (([], Some err), slog_Error w1 ''failed to scan rows: '' err)
      | (None, w1) \<Rightarrow> ((acc, None), w1))"
| "GetItems_loop w (r # rest) acc =
     (case next_fault w of
        (Some err, w1) \<Rightarrow> (([], Some err), slog_Error w1 ''failed to scan rows: '' err)
      | (None, w1) \<Rightarrow>
          (case next_fault w1 of
             (Some err, w2) \<Rightarrow> (([], Some err), slog_Error w2 ''failed to scan rows: '' err)
           | (None, w2) \<Rightarrow>
               GetItems_loop w2 rest
                 (acc @ [\<lparr>ID = items_id (fst r), Name = items_name (fst r),
                          Category = categories_name (snd r),
                          ImageName = items_image_name (fst r)\<rparr>])))"

text \<open>\<open>GetItems\<close> (lines 51 to 90). A nil slice is the empty list.\<close>

definition GetItems :: "world \<Rightarrow> (Item list \<times> error option) \<times> world" where
  "GetItems w =
     (case sql_Open w of
        (Some err, w1) \<Rightarrow> (([], Some err), slog_Error w1 ''failed to open database: '' err)
      | (None, w1) \<Rightarrow>
          (case db_Query w1 (select_items_join w1) of
             ((_, Some err), w2) \<Rightarrow> (([], Some err), slog_Error w2 ''failed to prepare statement: '' err)
           | ((rows, None), w2) \<Rightarrow> GetItems_loop w2 rows []))"

text \<open>
  Lines 103 to 125 of \<open>Insert\<close>: look the category up by name, insert it when
  the lookup reports \<open>sql.ErrNoRows\<close>, and read its identifier again. The
  result is \<open>category_id\<close>, or the error \<open>Insert\<close> returns.
\<close>

definition resolveOrCreate :: "world \<Rightarrow> string \<Rightarrow> (int \<times> error option) \<times> world" where
  "resolveOrCreate w category =
     (let (row, w1) = db_QueryRow w (select_category_id_by_name w category)
      in case Row_Scan w1 row of
           (Inl err, w2) \<Rightarrow>
             (if err = ErrNoRows then
                (case db_Exec w2 (insert_category category) of
                   (Some execErr, w3) \<Rightarrow>
                     ((0, Some execErr), slog_Error w3 ''failed to insert category: '' execErr)
                 | (None, w3) \<Rightarrow>
                     (let (row', w4) = db_QueryRow w3 (select_category_id_by_name w3 category)
                      in case Row_Scan w4 row' of
                           (Inl err', w5) \<Rightarrow> ((0, Some err'), slog_Error w5 ''failed to scan row: '' err')
                         | (Inr category_id, w5) \<Rightarrow> ((category_id, None), w5)))
              else ((0, Some err), slog_Error w2 ''failed to scan row: '' err))
         | (Inr category_id, w2) \<Rightarrow> ((category_id, None), w2))"

text \<open>\<open>Insert\<close> (lines 93 to 135).\<close>

definition Insert :: "world \<Rightarrow> Item \<Rightarrow> error option \<times> world" where
  "Insert w item =
     (case sql_Open w of
        (Some err, w1) \<Rightarrow> (Some err, slog_Error w1 ''failed to open database: '' err)
      | (None, w1) \<Rightarrow>
          (case resolveOrCreate w1 (Category item) of
             ((_, Some err), w2) \<Rightarrow> (Some err, w2)
           | ((category_id, None), w2) \<Rightarrow>
               (case db_Exec w2 (insert_item (Name item) category_id (ImageName item)) of
                  (Some err, w3) \<Rightarrow> (Some err, slog_Error w3 ''failed to insert item: '' err)
                | (None, w3) \<Rightarrow> (None, w3))))"

text \<open>
  The loop of \<open>GetItemByKeyword\<close> (lines 180 to 198). The third column of
  \<open>items\<close> is the category identifier; it is scanned into the string
  \<open>category\<close>.
\<close>

fun GetItemByKeyword_loop :: "world \<Rightarrow> items_row list \<Rightarrow> Item list \<Rightarrow> (Item list \<times> error option) \<times> world" where
  "GetItemByKeyword_loop w [] acc =
     (case next_fault w of
        (Some err, w1) \<Rightarrow> (([], Some err), slog_Error w1 ''failed to scan rows: '' err)
      | (None, w1) \<Rightarrow> ((acc, None), w1))"
| "GetItemByKeyword_loop w (r # rest) acc =
     (case next_fault w of
        (Some err, w1) \<Rightarrow> (([], Some err), slog_Error w1 ''failed to scan rows: '' err)
      | (None, w1) \<Rightarrow>
          (case next_fault w1 of
             (Some err, w2) \<Rightarrow> (([], Some err), slog_Error w2 ''failed to scan rows: '' err)
           | (None, w2) \<Rightarrow>
               GetItemByKeyword_loop w2 rest
                 (acc @ [\<lparr>ID = items_id r, Name = items_name r,
                          Category = FormatInt (items_category_id r),
                          ImageName = items_image_name r\<rparr>])))"

text \<open>\<open>GetItemByKeyword\<close> (lines 163 to 199).\<close>

definition GetItemByKeyword :: "world \<Rightarrow> string \<Rightarrow> (Item list \<times> error option) \<times> world" where
  "GetItemByKeyword w keyword =
     (case sql_Open w of
        (Some err, w1) \<Rightarrow> (([], Some err), slog_Error w1 ''failed to open database: '' err)
      | (None, w1) \<Rightarrow>
          (case db_Query w1 (select_items_by_name w1 keyword) of
             ((_, Some err), w2) \<Rightarrow> (([], Some err), slog_Error w2 ''failed to prepare statement: '' err)
           | ((rows, None), w2) \<Rightarrow> GetItemByKeyword_loop w2 rows []))"

text \<open>\<open>GetItemById\<close> (lines 201 to 221).\<close>

definition GetItemById :: "world \<Rightarrow> int \<Rightarrow> (Item \<times> error option) \<times> world" where
  "GetItemById w id' =
     (case sql_Open w of
        (Some err, w1) \<Rightarrow> ((Item_zero, Some err), slog_Error w1 ''failed to open database: '' err)
      | (None, w1) \<Rightarrow>
          (let (row, w2) = db_QueryRow w1 (select_items_join_by_id w1 id')
           in case Row_Scan w2 row of
                (Inl err, w3) \<Rightarrow> ((Item_zero, Some err), slog_Error w3 ''failed to scan row: '' err)
              | (Inr r, w3) \<Rightarrow>
                  ((\<lparr>ID = items_id (fst r), Name = items_name (fst r),
                     Category = categories_name (snd r),
                     ImageName = items_image_name (fst r)\<rparr>, None), w3)))"

text \<open>
  A call of one of the methods on the repository, and a sequence of calls run
  one after the other; only the state after each call is kept.
\<close>

datatype call =
    CallGetItems
  | CallInsert Item
  | CallGetFileName
  | CallGetItemByKeyword string
  | CallGetItemById int

fun run_call :: "world \<Rightarrow> call \<Rightarrow> world" where
  "run_call w CallGetItems = snd (GetItems w)"
| "run_call w (CallInsert item) = snd (Insert w item)"
| "run_call w CallGetFileName = w"
| "run_call w (CallGetItemByKeyword keyword) = snd (GetItemByKeyword w keyword)"
| "run_call w (CallGetItemById id') = snd (GetItemById w id')"

fun run_calls :: "world \<Rightarrow> call list \<Rightarrow> world" where
  "run_calls w [] = w"
| "run_calls w (c # cs) = run_calls (run_call w c) cs"

subsection \<open>Vocabulary of the proofs\<close>

text \<open>
  What the proofs say about a call: \<open>fault_of w e\<close>, the error \<open>e\<close> is a
  driver error of the fault schedule of \<open>w\<close>; \<open>sched w w'\<close>, the call left the
  repository object alone and only consumed entries of the schedule;
  \<open>reads_only w w'\<close>, it also left both tables as they were.
\<close>

definition fault_of :: "world \<Rightarrow> error \<Rightarrow> bool" where
  "fault_of w e =
     (case e of
        ErrNoRows \<Rightarrow> False
      | DriverError m \<Rightarrow> Some m \<in> set (faults w)
      | PathError _ _ \<Rightarrow> False
      | ErrInvalid \<Rightarrow> False)"

text \<open>
  \<open>first_fault fs n\<close> is the first failure among the first \<open>n\<close> entries of a
  schedule, and \<open>raised w n\<close> the error of the first call into the engine that
  fails when a method makes \<open>n\<close> such calls from state \<open>w\<close>: entries beyond the
  \<open>n\<close>-th are never reached.
\<close>

fun first_fault :: "string option list \<Rightarrow> nat \<Rightarrow> string option" where
  "first_fault [] n = None"
| "first_fault (f # fs) 0 = None"
| "first_fault (Some m # fs) (Suc n) = Some m"
| "first_fault (None # fs) (Suc n) = first_fault fs n"

definition raised :: "world \<Rightarrow> nat \<Rightarrow> error option" where
  "raised w n = map_option DriverError (first_fault (faults w) n)"

text \<open>
  The engine's own error values in a state: \<open>sql.ErrNoRows\<close> and the driver
  errors of the fault schedule.
\<close>

definition native_error :: "world \<Rightarrow> error \<Rightarrow> bool" where
  "native_error w e = (e = ErrNoRows \<or> fault_of w e)"

definition sched :: "world \<Rightarrow> world \<Rightarrow> bool" where
  "sched w w' = (self w' = self w \<and> set (faults w') \<subseteq> set (faults w))"

definition reads_only :: "world \<Rightarrow> world \<Rightarrow> bool" where
  "reads_only w w' =
     (sched w w' \<and> items_tbl w' = items_tbl w \<and> categories_tbl w' = categories_tbl w)"

text \<open>The \<open>Item\<close> built from a row of the join, and from a bare row of \<open>items\<close>.\<close>

definition joined_item :: "items_row \<times> categories_row \<Rightarrow> Item" where
  "joined_item r =
     \<lparr>ID = items_id (fst r), Name = items_name (fst r),
      Category = categories_name (snd r), ImageName = items_image_name (fst r)\<rparr>"

definition raw_item :: "items_row \<Rightarrow> Item" where
  "raw_item r =
     \<lparr>ID = items_id r, Name = items_name r,
      Category = FormatInt (items_category_id r), ImageName = items_image_name r\<rparr>"

text \<open>
  What a successful \<open>Insert\<close> of an item with category \<open>c\<close> leaves behind,
  read off the state before the call: the identifier the category resolves
  to, the \<open>categories\<close> table, and the new row of \<open>items\<close>.
\<close>

definition new_category :: "world \<Rightarrow> string \<Rightarrow> categories_row" where
  "new_category w c =
     \<lparr>categories_id = next_rowid (map categories_id (categories_tbl w)), categories_name = c\<rparr>"

definition resolved_id :: "world \<Rightarrow> string \<Rightarrow> int" where
  "resolved_id w c =
     (case select_category_id_by_name w c of
        [] \<Rightarrow> categories_id (new_category w c)
      | i # _ \<Rightarrow> i)"

definition resolved_categories :: "world \<Rightarrow> string \<Rightarrow> categories_row list" where
  "resolved_categories w c =
     (case select_category_id_by_name w c of
        [] \<Rightarrow> categories_tbl w @ [new_category w c]
      | _ # _ \<Rightarrow> categories_tbl w)"

definition new_item :: "world \<Rightarrow> Item \<Rightarrow> items_row" where
  "new_item w item =
     \<lparr>items_id = next_rowid (map items_id (items_tbl w)),
      items_name = Name item,
      items_category_id = resolved_id w (Category item),
      items_image_name = ImageName item\<rparr>"

section \<open>The request parser\<close>

text \<open>
  Modelled from the spec: the multipart decoder and \<open>parseAddItemRequest\<close>.
  The function is called by the test in \<open>server_test.go\<close>, but its source file
  is not among the files. Section 6 gives the decoder: a lookup of a named
  text field that returns the empty string when the field is absent, and a
  lookup of a named file part that returns its bytes or nothing. Section 4.1
  gives the parser: it reads the fields \<open>name\<close> and \<open>category\<close> and the file
  part \<open>image\<close>, and fails with a validation error when \<open>name\<close> is empty, when
  \<open>category\<close> is empty, or when the image part is absent or empty.
\<close>

record multipart_form =
  form_values :: "(string \<times> string) list"
  form_files :: "(string \<times> byte list) list"

definition FormValue :: "multipart_form \<Rightarrow> string \<Rightarrow> string" where
  "FormValue r key = (case map_of (form_values r) key of None \<Rightarrow> [] | Some v \<Rightarrow> v)"

definition FormFile :: "multipart_form \<Rightarrow> string \<Rightarrow> byte list option" where
  "FormFile r key = map_of (form_files r) key"

record AddItemRequest =
  reqName :: string
  reqCategory :: string
  reqImage :: "byte list"

datatype parse_error = ValidationError string

definition parseAddItemRequest :: "multipart_form \<Rightarrow> parse_error + AddItemRequest" where
  "parseAddItemRequest r =
     (let name = FormValue r ''name'';
          category = FormValue r ''category''
      in if name = [] then Inl (ValidationError ''name'')
         else if category = [] then Inl (ValidationError ''category'')
         else (case FormFile r ''image'' of
                 None \<Rightarrow> Inl (ValidationError ''image'')
               | Some img \<Rightarrow>
                   if img = [] then Inl (ValidationError ''image'')
                   else Inr \<lparr>reqName = name, reqCategory = category, reqImage = img\<rparr>))"

text \<open>
  The request body that \<open>TestParseAddItemRequest\<close> builds (server_test.go,
  lines 56 to 71): the two text fields always, the file part only when the
  image has at least one byte.
\<close>

definition test_body :: "string \<Rightarrow> string \<Rightarrow> byte list \<Rightarrow> multipart_form" where
  "test_body name category img =
     \<lparr>form_values = [(''name'', name), (''category'', category)],
      form_files = (if length img > 0 then [(''image'', img)] else [])\<rparr>"

definition bytes_of :: "string \<Rightarrow> byte list" where
  "bytes_of s = map (\<lambda>c. of_nat (of_char c)) s"

section \<open>Example states\<close>

text \<open>
  A store with no rows and no fault, and the same store when the database file
  cannot be opened: \<open>sql.Open\<close> succeeds and the query that follows fails.
\<close>

definition w_empty :: world where
  "w_empty = \<lparr>self = NewItemRepository, items_tbl = [], categories_tbl = [], faults = [], logs = []\<rparr>"

definition w_query_fails :: world where
  "w_query_fails = w_empty\<lparr>faults := [None, Some ''unable to open database file'']\<rparr>"

text \<open>The items of the examples.\<close>

definition alice :: Item where
  "alice = \<lparr>ID = 0, Name = ''Alice'', Category = ''people'', ImageName = ''alice.jpg''\<rparr>"

definition bob :: Item where
  "bob = \<lparr>ID = 0, Name = ''Bob'', Category = ''people'', ImageName = ''bob.jpg''\<rparr>"

text \<open>The store after \<open>alice\<close> was inserted into the empty store, and after \<open>bob\<close> too.\<close>

definition w_alice :: world where
  "w_alice = w_empty
     \<lparr>items_tbl := [\<lparr>items_id = 1, items_name = ''Alice'', items_category_id = 1,
                      items_image_name = ''alice.jpg''\<rparr>],
      categories_tbl := [\<lparr>categories_id = 1, categories_name = ''people''\<rparr>]\<rparr>"

definition w_alice_bob :: world where
  "w_alice_bob = w_alice
     \<lparr>items_tbl := items_tbl w_alice @
        [\<lparr>items_id = 2, items_name = ''Bob'', items_category_id = 1,
          items_image_name = ''bob.jpg''\<rparr>]\<rparr>"

text \<open>A file system in which nothing below \<open>/missing\<close> can be created.\<close>

definition fs_readonly :: filesystem where
  "fs_readonly =
     \<lparr>files = (\<lambda>p. None),
      create_fails = (\<lambda>p. take 9 p = ''/missing/''),
      write_quota = (\<lambda>p. None),
      fs_log = []\<rparr>"

text \<open>A file system whose device accepts at most two bytes per file.\<close>

definition fs_full :: filesystem where
  "fs_full =
     \<lparr>files = (\<lambda>p. None),
      create_fails = (\<lambda>p. False),
      write_quota = (\<lambda>p. Some 2),
      fs_log = []\<rparr>"

section \<open>Properties of the store and of the methods\<close>

lemma slog_Error_frame [simp]:
  "self (slog_Error w msg e) = self w"
  "items_tbl (slog_Error w msg e) = items_tbl w"
  "categories_tbl (slog_Error w msg e) = categories_tbl w"
  "faults (slog_Error w msg e) = faults w"
  by (simp_all add: slog_Error_def)

lemma sched_refl [simp]: "sched w w"
  by (simp add: sched_def)

lemma sched_trans: "sched w w1 \<Longrightarrow> sched w1 w2 \<Longrightarrow> sched w w2"
  by (auto simp: sched_def)

lemma sched_log [simp]: "sched w (slog_Error w1 msg e) = sched w w1"
  by (simp add: sched_def slog_Error_def)

lemma reads_only_refl [simp]: "reads_only w w"
  by (simp add: reads_only_def)

lemma reads_only_trans: "reads_only w w1 \<Longrightarrow> reads_only w1 w2 \<Longrightarrow> reads_only w w2"
  by (auto simp: reads_only_def intro: sched_trans)

lemma reads_only_log [simp]: "reads_only w (slog_Error w1 msg e) = reads_only w w1"
  by (simp add: reads_only_def slog_Error_def sched_def)

lemma reads_only_sched: "reads_only w w1 \<Longrightarrow> sched w w1"
  by (simp add: reads_only_def)

lemma fault_of_mono: "sched w w1 \<Longrightarrow> fault_of w1 e \<Longrightarrow> fault_of w e"
  by (auto simp: sched_def fault_of_def split: error.splits)

lemma fault_of_reads: "reads_only w w1 \<Longrightarrow> fault_of w1 e \<Longrightarrow> fault_of w e"
  by (blast intro: fault_of_mono reads_only_sched)

lemma fault_of_not_ErrNoRows [simp]: "\<not> fault_of w ErrNoRows"
  by (simp add: fault_of_def)

lemma next_fault_reads: "next_fault w = (r, w') \<Longrightarrow> reads_only w w'"
  by (auto simp: next_fault_def reads_only_def sched_def split: list.splits)

lemma next_fault_error: "next_fault w = (Some e, w') \<Longrightarrow> fault_of w e"
  by (auto simp: next_fault_def fault_of_def split: list.splits)

lemma next_fault_quiet: "faults w = [] \<Longrightarrow> next_fault w = (None, w)"
  by (simp add: next_fault_def)

lemma next_fault_cases:
  obtains (fail) e w1 where "next_fault w = (Some e, w1)" "fault_of w e" "reads_only w w1"
  | (ok) w1 where "next_fault w = (None, w1)" "reads_only w w1"
proof (cases "next_fault w")
  case (Pair r w1)
  show ?thesis
  proof (cases r)
    case None
    with Pair show ?thesis using ok next_fault_reads by blast
  next
    case (Some e)
    with Pair show ?thesis using fail next_fault_reads next_fault_error by blast
  qed
qed

lemma QueryRow_Scan_spec:
  assumes "db_QueryRow w res = (row, w1)" and "Row_Scan w1 row = (r, w2)"
  shows "reads_only w w2 \<and>
     (case r of Inl e \<Rightarrow> (e = ErrNoRows \<and> res = []) \<or> fault_of w e
              | Inr x \<Rightarrow> res \<noteq> [] \<and> x = hd res)"
proof (cases w rule: next_fault_cases)
  case (fail e w')
  with assms show ?thesis
    by (auto simp: db_QueryRow_def Row_Scan_def)
next
  case q: (ok wq)
  then have row: "row = Row None res" "w1 = wq"
    using assms(1) by (auto simp: db_QueryRow_def)
  show ?thesis
  proof (cases wq rule: next_fault_cases)
    case (fail e w')
    then have "fault_of w e" "reads_only w w'"
      using q by (blast intro: fault_of_reads reads_only_trans)+
    with fail q row assms(2) show ?thesis
      by (auto simp: Row_Scan_def)
  next
    case n: (ok wn)
    show ?thesis
    proof (cases res)
      case Nil
      have "reads_only w wn" using q n by (blast intro: reads_only_trans)
      with Nil q n row assms(2) show ?thesis
        by (auto simp: Row_Scan_def)
    next
      case (Cons x rest)
      have r2: "reads_only w wn" using q n by (blast intro: reads_only_trans)
      show ?thesis
      proof (cases wn rule: next_fault_cases)
        case (fail e w')
        then have "fault_of w e" "reads_only w w'"
          using r2 by (blast intro: fault_of_reads reads_only_trans)+
        with fail q n row Cons assms(2) show ?thesis
          by (auto simp: Row_Scan_def)
      next
        case (ok w')
        then have "reads_only w w'"
          using r2 by (blast intro: reads_only_trans)
        with ok q n row Cons assms(2) show ?thesis
          by (auto simp: Row_Scan_def)
      qed
    qed
  qed
qed

lemma QueryRow_Scan_quiet:
  "faults w = [] \<Longrightarrow> db_QueryRow w res = (Row None res, w)"
  "faults w = [] \<Longrightarrow> Row_Scan w (Row None res) = ((case res of [] \<Rightarrow> Inl ErrNoRows | x # _ \<Rightarrow> Inr x), w)"
  by (simp_all add: db_QueryRow_def Row_Scan_def next_fault_quiet split: list.splits)

lemma db_Query_spec:
  assumes "db_Query w res = ((rows, err), w1)"
  shows "reads_only w w1 \<and> (case err of Some e \<Rightarrow> fault_of w e | None \<Rightarrow> rows = res)"
  using assms by (cases w rule: next_fault_cases) (auto simp: db_Query_def)

lemma db_Exec_spec:
  assumes "db_Exec w stmt = (err, w')"
  shows "case err of Some e \<Rightarrow> fault_of w e \<and> reads_only w w'
                   | None \<Rightarrow> (\<exists>w1. reads_only w w1 \<and> w' = stmt w1)"
  using assms by (cases w rule: next_fault_cases) (auto simp: db_Exec_def)


lemma GetItems_loop_spec:
  "GetItems_loop w rows acc = ((xs, err), w') \<Longrightarrow>
     reads_only w w' \<and>
     (case err of Some e \<Rightarrow> fault_of w e \<and> xs = [] | None \<Rightarrow> xs = acc @ map joined_item rows)"
proof (induction rows arbitrary: w acc)
  case Nil
  show ?case
  proof (cases w rule: next_fault_cases)
    case (fail e w1)
    with Nil show ?thesis by auto
  next
    case (ok w1)
    with Nil show ?thesis by auto
  qed
next
  case (Cons r rest)
  show ?case
  proof (cases w rule: next_fault_cases)
    case (fail e w1)
    with Cons.prems show ?thesis by auto
  next
    case ok1: (ok w1)
    show ?thesis
    proof (cases w1 rule: next_fault_cases)
      case (fail e w2)
      then have "fault_of w e" "reads_only w w2"
        using ok1 by (blast intro: fault_of_reads reads_only_trans)+
      with fail ok1 Cons.prems show ?thesis by auto
    next
      case ok2: (ok w2)
      from ok1 ok2 Cons.prems
      have "GetItems_loop w2 rest (acc @ [joined_item r]) = ((xs, err), w')"
        by (simp add: joined_item_def)
      from Cons.IH [OF this] have ih: "reads_only w2 w'"
        "case err of Some e \<Rightarrow> fault_of w2 e \<and> xs = []
                   | None \<Rightarrow> xs = (acc @ [joined_item r]) @ map joined_item rest"
        by simp_all
      have r02: "reads_only w w2" using ok1 ok2 by (blast intro: reads_only_trans)
      with ih show ?thesis
        by (auto split: option.splits intro: reads_only_trans fault_of_reads)
    qed
  qed
qed

lemma GetItems_loop_quiet:
  "faults w = [] \<Longrightarrow> GetItems_loop w rows acc = ((acc @ map joined_item rows, None), w)"
  by (induction rows arbitrary: acc) (simp_all add: next_fault_quiet joined_item_def)

lemma GetItemByKeyword_loop_spec:
  "GetItemByKeyword_loop w rows acc = ((xs, err), w') \<Longrightarrow>
     reads_only w w' \<and>
     (case err of Some e \<Rightarrow> fault_of w e \<and> xs = [] | None \<Rightarrow> xs = acc @ map raw_item rows)"
proof (induction rows arbitrary: w acc)
  case Nil
  show ?case
  proof (cases w rule: next_fault_cases)
    case (fail e w1)
    with Nil show ?thesis by auto
  next
    case (ok w1)
    with Nil show ?thesis by auto
  qed
next
  case (Cons r rest)
  show ?case
  proof (cases w rule: next_fault_cases)
    case (fail e w1)
    with Cons.prems show ?thesis by auto
  next
    case ok1: (ok w1)
    show ?thesis
    proof (cases w1 rule: next_fault_cases)
      case (fail e w2)
      then have "fault_of w e" "reads_only w w2"
        using ok1 by (blast intro: fault_of_reads reads_only_trans)+
      with fail ok1 Cons.prems show ?thesis by auto
    next
      case ok2: (ok w2)
      from ok1 ok2 Cons.prems
      have "GetItemByKeyword_loop w2 rest (acc @ [raw_item r]) = ((xs, err), w')"
        by (simp add: raw_item_def)
      from Cons.IH [OF this] have ih: "reads_only w2 w'"
        "case err of Some e \<Rightarrow> fault_of w2 e \<and> xs = []
                   | None \<Rightarrow> xs = (acc @ [raw_item r]) @ map raw_item rest"
        by simp_all
      have r02: "reads_only w w2" using ok1 ok2 by (blast intro: reads_only_trans)
      with ih show ?thesis
        by (auto split: option.splits intro: reads_only_trans fault_of_reads)
    qed
  qed
qed

lemma GetItemByKeyword_loop_quiet:
  "faults w = [] \<Longrightarrow> GetItemByKeyword_loop w rows acc = ((acc @ map raw_item rows, None), w)"
  by (induction rows arbitrary: acc) (simp_all add: next_fault_quiet raw_item_def)

lemma select_reads:
  "reads_only w w1 \<Longrightarrow> select_items_join w1 = select_items_join w"
  "reads_only w w1 \<Longrightarrow> select_items_join_by_id w1 i = select_items_join_by_id w i"
  "reads_only w w1 \<Longrightarrow> select_items_by_name w1 k = select_items_by_name w k"
  "reads_only w w1 \<Longrightarrow> select_category_id_by_name w1 c = select_category_id_by_name w c"
  by (simp_all add: reads_only_def select_items_join_def select_items_join_by_id_def
      select_items_by_name_def select_category_id_by_name_def)

lemma GetItems_spec:
  assumes "GetItems w = ((xs, err), w')"
  shows "reads_only w w' \<and>
     (case err of Some e \<Rightarrow> fault_of w e \<and> xs = []
                | None \<Rightarrow> xs = map joined_item (select_items_join w))"
proof (cases w rule: next_fault_cases)
  case (fail e w1)
  with assms show ?thesis by (auto simp: GetItems_def sql_Open_def)
next
  case o: (ok w1)
  obtain rows qerr w2 where q: "db_Query w1 (select_items_join w1) = ((rows, qerr), w2)"
    by (metis prod.exhaust)
  note qs = db_Query_spec [OF q]
  have r2: "reads_only w w2" using o qs by (blast intro: reads_only_trans)
  show ?thesis
  proof (cases qerr)
    case (Some e)
    then have "fault_of w e" using qs o by (auto intro: fault_of_reads)
    with Some o q r2 assms show ?thesis by (auto simp: GetItems_def sql_Open_def)
  next
    case None
    then have rows: "rows = select_items_join w" using qs o by (simp add: select_reads)
    from None o q assms have "GetItems_loop w2 rows [] = ((xs, err), w')"
      by (simp add: GetItems_def sql_Open_def)
    from GetItems_loop_spec [OF this] r2 rows show ?thesis
      by (auto split: option.splits intro: reads_only_trans fault_of_reads)
  qed
qed

lemma GetItems_quiet:
  "faults w = [] \<Longrightarrow> GetItems w = ((map joined_item (select_items_join w), None), w)"
  by (simp add: GetItems_def sql_Open_def db_Query_def next_fault_quiet GetItems_loop_quiet)

lemma GetItemByKeyword_spec:
  assumes "GetItemByKeyword w k = ((xs, err), w')"
  shows "reads_only w w' \<and>
     (case err of Some e \<Rightarrow> fault_of w e \<and> xs = []
                | None \<Rightarrow> xs = map raw_item (select_items_by_name w k))"
proof (cases w rule: next_fault_cases)
  case (fail e w1)
  with assms show ?thesis by (auto simp: GetItemByKeyword_def sql_Open_def)
next
  case o: (ok w1)
  obtain rows qerr w2 where q: "db_Query w1 (select_items_by_name w1 k) = ((rows, qerr), w2)"
    by (metis prod.exhaust)
  note qs = db_Query_spec [OF q]
  have r2: "reads_only w w2" using o qs by (blast intro: reads_only_trans)
  show ?thesis
  proof (cases qerr)
    case (Some e)
    then have "fault_of w e" using qs o by (auto intro: fault_of_reads)
    with Some o q r2 assms show ?thesis by (auto simp: GetItemByKeyword_def sql_Open_def)
  next
    case None
    then have rows: "rows = select_items_by_name w k" using qs o by (simp add: select_reads)
    from None o q assms have "GetItemByKeyword_loop w2 rows [] = ((xs, err), w')"
      by (simp add: GetItemByKeyword_def sql_Open_def)
    from GetItemByKeyword_loop_spec [OF this] r2 rows show ?thesis
      by (auto split: option.splits intro: reads_only_trans fault_of_reads)
  qed
qed

lemma GetItemByKeyword_quiet:
  "faults w = [] \<Longrightarrow> GetItemByKeyword w k = ((map raw_item (select_items_by_name w k), None), w)"
  by (simp add: GetItemByKeyword_def sql_Open_def db_Query_def next_fault_quiet
      GetItemByKeyword_loop_quiet)

lemma GetItemById_spec:
  assumes "GetItemById w i = ((x, err), w')"
  shows "reads_only w w' \<and>
     (case err of
        Some e \<Rightarrow> x = Item_zero \<and> ((e = ErrNoRows \<and> select_items_join_by_id w i = []) \<or> fault_of w e)
      | None \<Rightarrow> select_items_join_by_id w i \<noteq> [] \<and> x = joined_item (hd (select_items_join_by_id w i)))"
proof (cases w rule: next_fault_cases)
  case (fail e w1)
  with assms show ?thesis by (auto simp: GetItemById_def sql_Open_def)
next
  case o: (ok w1)
  obtain row w2 where q: "db_QueryRow w1 (select_items_join_by_id w1 i) = (row, w2)"
    by (metis prod.exhaust)
  obtain r w3 where sc: "Row_Scan w2 row = (r, w3)"
    by (metis prod.exhaust)
  note qs = QueryRow_Scan_spec [OF q sc]
  have sel: "select_items_join_by_id w1 i = select_items_join_by_id w i"
    using o by (simp add: select_reads)
  have r3: "reads_only w w3" using o qs by (blast intro: reads_only_trans)
  show ?thesis
  proof (cases r)
    case (Inl e)
    then have "(e = ErrNoRows \<and> select_items_join_by_id w i = []) \<or> fault_of w e"
      using qs o sel by (auto intro: fault_of_reads)
    with Inl o q sc r3 assms show ?thesis
      by (auto simp: GetItemById_def sql_Open_def)
  next
    case (Inr y)
    with o q sc r3 assms qs sel show ?thesis
      by (auto simp: GetItemById_def sql_Open_def joined_item_def)
  qed
qed

lemma GetItemById_quiet:
  "faults w = [] \<Longrightarrow> fst (GetItemById w i) =
     (case select_items_join_by_id w i of
        [] \<Rightarrow> (Item_zero, Some ErrNoRows)
      | r # _ \<Rightarrow> (joined_item r, None))"
  by (simp add: GetItemById_def sql_Open_def next_fault_quiet QueryRow_Scan_quiet
      joined_item_def slog_Error_def split: list.splits)

lemma next_rowid_fresh: "x \<in> set ids \<Longrightarrow> x < next_rowid ids"
proof -
  assume x: "x \<in> set ids"
  then have "ids \<noteq> []" by auto
  moreover have "x \<le> Max (set ids)" using x by simp
  ultimately show ?thesis by (simp add: next_rowid_def)
qed

lemma select_after_insert_category:
  assumes "select_category_id_by_name w c = []"
  shows "select_category_id_by_name (insert_category c w) c = [categories_id (new_category w c)]"
  using assms by (simp add: select_category_id_by_name_def insert_category_def new_category_def)

lemma insert_category_frame:
  "self (insert_category c w) = self w"
  "faults (insert_category c w) = faults w"
  "items_tbl (insert_category c w) = items_tbl w"
  "categories_tbl (insert_category c w) = categories_tbl w @ [new_category w c]"
  by (simp_all add: insert_category_def new_category_def)

lemma insert_item_frame:
  "self (insert_item n cid im w) = self w"
  "faults (insert_item n cid im w) = faults w"
  "categories_tbl (insert_item n cid im w) = categories_tbl w"
  "items_tbl (insert_item n cid im w) = items_tbl w @
     [\<lparr>items_id = next_rowid (map items_id (items_tbl w)), items_name = n,
       items_category_id = cid, items_image_name = im\<rparr>]"
  by (simp_all add: insert_item_def)

lemma resolveOrCreate_spec:
  assumes "resolveOrCreate w c = ((cid, err), w')"
  shows "sched w w' \<and> items_tbl w' = items_tbl w \<and>
     (case err of
        Some e \<Rightarrow> fault_of w e \<and>
          (categories_tbl w' = categories_tbl w \<or> categories_tbl w' = resolved_categories w c)
      | None \<Rightarrow> cid = resolved_id w c \<and> categories_tbl w' = resolved_categories w c)"
proof -
  obtain row w1 where q: "db_QueryRow w (select_category_id_by_name w c) = (row, w1)"
    by (metis prod.exhaust)
  obtain r w2 where sc: "Row_Scan w1 row = (r, w2)"
    by (metis prod.exhaust)
  note qs = QueryRow_Scan_spec [OF q sc]
  then have r2: "reads_only w w2" by simp
  show ?thesis
  proof (cases r)
    case (Inr i)
    then have "select_category_id_by_name w c \<noteq> []" "i = hd (select_category_id_by_name w c)"
      using qs by simp_all
    then have "resolved_id w c = i" "resolved_categories w c = categories_tbl w"
      by (auto simp: resolved_id_def resolved_categories_def split: list.splits)
    with Inr q sc r2 assms show ?thesis
      by (auto simp: resolveOrCreate_def reads_only_def)
  next
    case (Inl e)
    show ?thesis
    proof (cases "e = ErrNoRows")
      case False
      then have "fault_of w e" using qs Inl by simp
      with False Inl q sc r2 assms show ?thesis
        by (auto simp: resolveOrCreate_def reads_only_def)
    next
      case True
      then have empty: "select_category_id_by_name w c = []" using qs Inl by simp
      then have res: "resolved_id w c = categories_id (new_category w c)"
        "resolved_categories w c = categories_tbl w @ [new_category w c]"
        by (simp_all add: resolved_id_def resolved_categories_def)
      obtain xerr w3 where ex: "db_Exec w2 (insert_category c) = (xerr, w3)"
        by (metis prod.exhaust)
      note xs = db_Exec_spec [OF ex]
      show ?thesis
      proof (cases xerr)
        case (Some x)
        then have "fault_of w x" "reads_only w w3"
          using xs r2 by (auto intro: fault_of_reads reads_only_trans)
        with Some True Inl q sc ex assms show ?thesis
          by (auto simp: resolveOrCreate_def reads_only_def)
      next
        case None
        then obtain v where v: "reads_only w2 v" "w3 = insert_category c v"
          using xs by auto
        then have rv: "reads_only w v" using r2 by (blast intro: reads_only_trans)
        have nc: "new_category v c = new_category w c"
          using rv by (simp add: new_category_def reads_only_def)
        have sv: "select_category_id_by_name v c = []"
          using rv empty by (simp add: select_reads)
        have w3: "sched w w3" "items_tbl w3 = items_tbl w"
          "categories_tbl w3 = categories_tbl w @ [new_category w c]"
          "select_category_id_by_name w3 c = [categories_id (new_category w c)]"
          using rv v(2) nc select_after_insert_category [OF sv]
          by (simp_all add: insert_category_frame reads_only_def sched_def)
        obtain row' w4 where q': "db_QueryRow w3 (select_category_id_by_name w3 c) = (row', w4)"
          by (metis prod.exhaust)
        obtain r' w5 where sc': "Row_Scan w4 row' = (r', w5)"
          by (metis prod.exhaust)
        note qs' = QueryRow_Scan_spec [OF q' sc']
        then have r5: "reads_only w3 w5" by simp
        have w5: "sched w w5" "items_tbl w5 = items_tbl w"
          "categories_tbl w5 = categories_tbl w @ [new_category w c]"
          using r5 w3 by (auto simp: reads_only_def intro: sched_trans)
        show ?thesis
        proof (cases r')
          case (Inl e')
          then have "fault_of w3 e'" using qs' w3(4) by auto
          then have "fault_of w e'" using w3(1) by (rule fault_of_mono [rotated])
          with Inl None True \<open>r = Inl e\<close> q sc ex q' sc' w5 res assms show ?thesis
            by (auto simp: resolveOrCreate_def)
        next
          case (Inr i)
          then have "i = categories_id (new_category w c)" using qs' w3(4) by simp
          with Inr None True \<open>r = Inl e\<close> q sc ex q' sc' w5 res assms show ?thesis
            by (auto simp: resolveOrCreate_def)
        qed
      qed
    qed
  qed
qed


lemma resolved_reads:
  "reads_only w w1 \<Longrightarrow> new_category w1 c = new_category w c"
  "reads_only w w1 \<Longrightarrow> resolved_id w1 c = resolved_id w c"
  "reads_only w w1 \<Longrightarrow> resolved_categories w1 c = resolved_categories w c"
  "reads_only w w1 \<Longrightarrow> new_item w1 item = new_item w item"
  by (simp_all add: reads_only_def new_category_def resolved_id_def resolved_categories_def
      new_item_def select_category_id_by_name_def split: list.splits)

lemma Insert_spec:
  assumes "Insert w item = (err, w')"
  shows "sched w w' \<and>
     (case err of
        Some e \<Rightarrow> fault_of w e \<and> items_tbl w' = items_tbl w \<and>
          (categories_tbl w' = categories_tbl w \<or> categories_tbl w' = resolved_categories w (Category item))
      | None \<Rightarrow> items_tbl w' = items_tbl w @ [new_item w item] \<and>
          categories_tbl w' = resolved_categories w (Category item))"
proof (cases w rule: next_fault_cases)
  case (fail e w1)
  with assms show ?thesis by (auto simp: Insert_def sql_Open_def reads_only_def)
next
  case o: (ok w1)
  then have same: "resolved_id w1 (Category item) = resolved_id w (Category item)"
    "resolved_categories w1 (Category item) = resolved_categories w (Category item)"
    "new_item w1 item = new_item w item" "items_tbl w1 = items_tbl w"
    "categories_tbl w1 = categories_tbl w" "sched w w1"
    by (simp_all add: resolved_reads) (simp_all add: reads_only_def)
  obtain cid rerr w2 where rc: "resolveOrCreate w1 (Category item) = ((cid, rerr), w2)"
    by (metis prod.exhaust)
  note rs = resolveOrCreate_spec [OF rc]
  have s2: "sched w w2" using rs same(6) by (blast intro: sched_trans)
  show ?thesis
  proof (cases rerr)
    case (Some e)
    then have "fault_of w e" using rs same(6) by (auto intro: fault_of_mono)
    with Some o rc rs s2 same assms show ?thesis
      by (auto simp: Insert_def sql_Open_def)
  next
    case None
    then have w2: "cid = resolved_id w (Category item)" "items_tbl w2 = items_tbl w"
      "categories_tbl w2 = resolved_categories w (Category item)"
      using rs same by simp_all
    obtain xerr w3 where ex: "db_Exec w2 (insert_item (Name item) cid (ImageName item)) = (xerr, w3)"
      by (metis prod.exhaust)
    note xs = db_Exec_spec [OF ex]
    show ?thesis
    proof (cases xerr)
      case (Some x)
      then have "fault_of w x" "sched w w3" "items_tbl w3 = items_tbl w"
          "categories_tbl w3 = resolved_categories w (Category item)"
        using xs s2 w2 by (auto simp: reads_only_def intro: fault_of_mono sched_trans)
      with Some None o rc ex assms show ?thesis
        by (auto simp: Insert_def sql_Open_def)
    next
      case n: None
      then obtain v where v: "reads_only w2 v" "w3 = insert_item (Name item) cid (ImageName item) v"
        using xs by auto
      then have "sched w w3" "items_tbl w3 = items_tbl w @ [new_item w item]"
          "categories_tbl w3 = resolved_categories w (Category item)"
        using s2 w2 by (auto simp: insert_item_frame reads_only_def new_item_def sched_def)
      with n None o rc ex assms show ?thesis
        by (auto simp: Insert_def sql_Open_def)
    qed
  qed
qed

lemma resolveOrCreate_quiet:
  "faults w = [] \<Longrightarrow> fst (resolveOrCreate w c) = (resolved_id w c, None)
     \<and> faults (snd (resolveOrCreate w c)) = []
     \<and> items_tbl (snd (resolveOrCreate w c)) = items_tbl w"
  by (cases "select_category_id_by_name w c")
     (simp_all add: resolveOrCreate_def QueryRow_Scan_quiet db_Exec_def next_fault_quiet
        insert_category_frame select_after_insert_category resolved_id_def)

lemma Insert_quiet: "faults w = [] \<Longrightarrow> fst (Insert w item) = None"
proof -
  assume q: "faults w = []"
  obtain cid rerr w2 where rc: "resolveOrCreate w (Category item) = ((cid, rerr), w2)"
    by (metis prod.exhaust)
  with resolveOrCreate_quiet [OF q, of "Category item"] have "rerr = None" "faults w2 = []"
    by simp_all
  with q rc show ?thesis
    by (simp add: Insert_def sql_Open_def next_fault_quiet db_Exec_def)
qed

section \<open>Properties of the repository\<close>

lemma Insert_w_empty_alice: "Insert w_empty alice = (None, w_alice)"
  by (simp add: Insert_def sql_Open_def next_fault_def resolveOrCreate_def db_QueryRow_def
      Row_Scan_def db_Exec_def insert_category_def insert_item_def select_category_id_by_name_def
      next_rowid_def w_empty_def w_alice_def alice_def)

lemma Insert_w_alice_bob: "Insert w_alice bob = (None, w_alice_bob)"
  by (simp add: Insert_def sql_Open_def next_fault_def resolveOrCreate_def db_QueryRow_def
      Row_Scan_def db_Exec_def insert_category_def insert_item_def select_category_id_by_name_def
      next_rowid_def w_empty_def w_alice_def w_alice_bob_def bob_def)

text \<open>
  C9. On a store with no item rows \<open>GetItems\<close> returns the empty sequence. It
  returns an error only when a call into the engine failed, and that error is
  the driver's; when no call fails it returns no error.
\<close>

theorem GetItems_empty_store:
  assumes "items_tbl w = []"
  shows "fst (fst (GetItems w)) = []
     \<and> (\<forall>e. snd (fst (GetItems w)) = Some e \<longrightarrow> fault_of w e)
     \<and> ((\<forall>f \<in> set (faults w). f = None) \<longrightarrow> snd (fst (GetItems w)) = None)"
proof -
  obtain xs err w' where g: "GetItems w = ((xs, err), w')"
    by (metis prod.exhaust)
  note gs = GetItems_spec [OF g]
  have "select_items_join w = []"
    using assms by (simp add: select_items_join_def inner_join_def)
  with gs have xs: "xs = []" by (cases err) simp_all
  have err: "\<And>e. err = Some e \<Longrightarrow> fault_of w e" using gs by auto
  have "err = None" if "\<forall>f \<in> set (faults w). f = None"
  proof (cases err)
    case (Some e)
    then have "fault_of w e" by (rule err)
    with that show ?thesis by (auto simp: fault_of_def split: error.splits)
  qed simp
  with xs err g show ?thesis by simp
qed

theorem GetItems_empty_store_witness:
  "items_tbl w_empty = [] \<and> fst (GetItems w_empty) = ([], None)"
  using GetItems_empty_store [of w_empty] by (simp add: w_empty_def prod_eq_iff)


lemma no_faults_not_fault_of: "\<forall>f \<in> set (faults w). f = None \<Longrightarrow> \<not> fault_of w e"
  by (auto simp: fault_of_def split: error.splits)

lemma inner_join_filter_items:
  "filter (\<lambda>(i, c). P i) (inner_join its cs) = inner_join (filter P its) cs"
  by (induction its) (simp_all add: inner_join_def)

lemma select_items_join_by_id_alt:
  "select_items_join_by_id w k =
     inner_join (filter (\<lambda>i. items_id i = k) (items_tbl w)) (categories_tbl w)"
  by (simp add: select_items_join_by_id_def select_items_join_def inner_join_filter_items)

text \<open>
  C7. For an identifier that matches no row of \<open>items\<close>, \<open>GetItemById\<close> never
  succeeds: it returns the zero \<open>Item\<close> together with an error. The error is
  \<open>sql.ErrNoRows\<close> unless a call into the engine failed, and \<open>sql.ErrNoRows\<close>
  is not one of the driver's errors.
\<close>

theorem GetItemById_not_found:
  assumes "k \<notin> items_id ` set (items_tbl w)"
  shows "fst (fst (GetItemById w k)) = Item_zero
     \<and> snd (fst (GetItemById w k)) \<noteq> None
     \<and> (\<forall>e. snd (fst (GetItemById w k)) = Some e \<longrightarrow> e = ErrNoRows \<or> fault_of w e)
     \<and> ((\<forall>f \<in> set (faults w). f = None) \<longrightarrow> snd (fst (GetItemById w k)) = Some ErrNoRows)
     \<and> \<not> fault_of w ErrNoRows"
proof -
  obtain x err w' where g: "GetItemById w k = ((x, err), w')"
    by (metis prod.exhaust)
  note gs = GetItemById_spec [OF g]
  have "filter (\<lambda>i. items_id i = k) (items_tbl w) = []"
    using assms by (auto simp: filter_empty_conv)
  then have empty: "select_items_join_by_id w k = []"
    by (simp add: select_items_join_by_id_alt inner_join_def)
  with gs obtain e where e: "err = Some e" "x = Item_zero" "e = ErrNoRows \<or> fault_of w e"
    by (cases err) auto
  have "e = ErrNoRows" if "\<forall>f \<in> set (faults w). f = None"
    using e(3) no_faults_not_fault_of [OF that] by blast
  with e g show ?thesis by simp
qed

theorem GetItemById_not_found_witness:
  "(3::int) \<notin> items_id ` set (items_tbl w_alice_bob)
   \<and> fst (GetItemById w_alice_bob 3) = (Item_zero, Some ErrNoRows)"
  using GetItemById_not_found [of 3 w_alice_bob]
  by (simp add: w_alice_bob_def w_alice_def w_empty_def prod_eq_iff)

subsection \<open>The error a method returns\<close>

lemma raised_0 [simp]: "raised w 0 = None"
  by (cases "faults w") (simp_all add: raised_def)

lemma raised_log [simp]: "raised (slog_Error w msg e) n = raised w n"
  by (simp add: raised_def)

lemma raised_step:
  "next_fault w = (r, w1) \<Longrightarrow>
     raised w (Suc n) = (case r of Some e \<Rightarrow> Some e | None \<Rightarrow> raised w1 n)"
proof (cases "faults w")
  case Nil
  assume "next_fault w = (r, w1)"
  with Nil show ?thesis by (auto simp: next_fault_def raised_def)
next
  case (Cons f fs)
  assume "next_fault w = (r, w1)"
  with Cons show ?thesis by (cases f) (auto simp: next_fault_def raised_def)
qed

lemma next_fault_not_ErrNoRows: "next_fault w = (Some e, w1) \<Longrightarrow> e \<noteq> ErrNoRows"
  by (auto simp: next_fault_def split: list.splits)

lemma raised_native: "raised w n = Some e \<Longrightarrow> fault_of w e"
proof (induction "faults w" n arbitrary: w rule: first_fault.induct)
  case (1 n)
  then show ?case by (simp add: raised_def)
next
  case (2 f fs)
  then show ?case by simp
next
  case (3 m fs n)
  from 3(1) [symmetric] 3(2) show ?case by (auto simp: raised_def fault_of_def)
next
  case (4 fs n)
  have "fs = faults (w\<lparr>faults := fs\<rparr>)" by simp
  moreover have "raised (w\<lparr>faults := fs\<rparr>) n = Some e"
    using 4(2,3) [symmetric] 4(3) by (simp add: raised_def)
  ultimately have "fault_of (w\<lparr>faults := fs\<rparr>) e" by (rule 4(1))
  with 4(2) [symmetric] show ?case by (auto simp: fault_of_def split: error.splits)
qed

lemma GetItems_loop_raised:
  "snd (fst (GetItems_loop w rows acc)) = raised w (2 * length rows + 1)"
proof (induction rows arbitrary: w acc)
  case Nil
  obtain r w1 where n: "next_fault w = (r, w1)" by (metis prod.exhaust)
  from raised_step [OF n, of 0] n show ?case by (cases r) simp_all
next
  case (Cons a rows)
  obtain r w1 where n1: "next_fault w = (r, w1)" by (metis prod.exhaust)
  obtain r' w2 where n2: "next_fault w1 = (r', w2)" by (metis prod.exhaust)
  have len: "2 * length (a # rows) + 1 = Suc (Suc (2 * length rows + 1))" by simp
  from raised_step [OF n1, of "Suc (2 * length rows + 1)"]
    raised_step [OF n2, of "2 * length rows + 1"] n1 n2 Cons.IH
  show ?case unfolding len by (cases r; cases r') simp_all
qed

lemma GetItemByKeyword_loop_raised:
  "snd (fst (GetItemByKeyword_loop w rows acc)) = raised w (2 * length rows + 1)"
proof (induction rows arbitrary: w acc)
  case Nil
  obtain r w1 where n: "next_fault w = (r, w1)" by (metis prod.exhaust)
  from raised_step [OF n, of 0] n show ?case by (cases r) simp_all
next
  case (Cons a rows)
  obtain r w1 where n1: "next_fault w = (r, w1)" by (metis prod.exhaust)
  obtain r' w2 where n2: "next_fault w1 = (r', w2)" by (metis prod.exhaust)
  have len: "2 * length (a # rows) + 1 = Suc (Suc (2 * length rows + 1))" by simp
  from raised_step [OF n1, of "Suc (2 * length rows + 1)"]
    raised_step [OF n2, of "2 * length rows + 1"] n1 n2 Cons.IH
  show ?case unfolding len by (cases r; cases r') simp_all
qed

lemma GetItems_raised:
  "snd (fst (GetItems w)) = raised w (3 + 2 * length (select_items_join w))"
proof -
  let ?n = "length (select_items_join w)"
  obtain r w1 where n1: "next_fault w = (r, w1)" by (metis prod.exhaust)
  obtain r' w2 where n2: "next_fault w1 = (r', w2)" by (metis prod.exhaust)
  have len: "3 + 2 * ?n = Suc (Suc (2 * ?n + 1))" by simp
  have sel: "select_items_join w1 = select_items_join w"
    using next_fault_reads [OF n1] by (simp add: select_reads)
  from raised_step [OF n1, of "Suc (2 * ?n + 1)"] raised_step [OF n2, of "2 * ?n + 1"] n1 n2 sel
  show ?thesis unfolding len
    by (cases r; cases r')
       (simp_all add: GetItems_def sql_Open_def db_Query_def GetItems_loop_raised)
qed

lemma GetItemByKeyword_raised:
  "snd (fst (GetItemByKeyword w k)) = raised w (3 + 2 * length (select_items_by_name w k))"
proof -
  let ?n = "length (select_items_by_name w k)"
  obtain r w1 where n1: "next_fault w = (r, w1)" by (metis prod.exhaust)
  obtain r' w2 where n2: "next_fault w1 = (r', w2)" by (metis prod.exhaust)
  have len: "3 + 2 * ?n = Suc (Suc (2 * ?n + 1))" by simp
  have sel: "select_items_by_name w1 k = select_items_by_name w k"
    using next_fault_reads [OF n1] by (simp add: select_reads)
  from raised_step [OF n1, of "Suc (2 * ?n + 1)"] raised_step [OF n2, of "2 * ?n + 1"] n1 n2 sel
  show ?thesis unfolding len
    by (cases r; cases r')
       (simp_all add: GetItemByKeyword_def sql_Open_def db_Query_def GetItemByKeyword_loop_raised)
qed

text \<open>\<open>QueryRow\<close> and then \<open>Scan\<close> make two calls on an empty result set, three otherwise.\<close>

lemma QueryRow_Scan_raised:
  assumes "db_QueryRow w res = (row, w1)" and "Row_Scan w1 row = (r, w2)"
  shows "(case r of Inl e \<Rightarrow> Some e | Inr x \<Rightarrow> None) =
     (case raised w (if res = [] then 2 else 3) of
        Some e \<Rightarrow> Some e
      | None \<Rightarrow> if res = [] then Some ErrNoRows else None)"
    and "\<And>n. (\<exists>e. r = Inl e \<and> e \<noteq> ErrNoRows) \<or>
          raised w ((if res = [] then 2 else 3) + n) = raised w2 n"
proof -
  obtain a wa where n1: "next_fault w = (a, wa)" by (metis prod.exhaust)
  obtain b wb where n2: "next_fault wa = (b, wb)" by (metis prod.exhaust)
  obtain c wc where n3: "next_fault wb = (c, wc)" by (metis prod.exhaust)
  have s2: "raised w (Suc (Suc 0)) =
      (case a of Some e \<Rightarrow> Some e | None \<Rightarrow> (case b of Some e \<Rightarrow> Some e | None \<Rightarrow> None))"
    using raised_step [OF n1, of "Suc 0"] raised_step [OF n2, of 0]
    by (cases a; cases b) simp_all
  have s3: "raised w (Suc (Suc (Suc 0))) =
      (case a of Some e \<Rightarrow> Some e | None \<Rightarrow> (case b of Some e \<Rightarrow> Some e | None \<Rightarrow>
         (case c of Some e \<Rightarrow> Some e | None \<Rightarrow> None)))"
    using raised_step [OF n1, of "Suc (Suc 0)"] raised_step [OF n2, of "Suc 0"]
      raised_step [OF n3, of 0]
    by (cases a; cases b; cases c) simp_all
  have two: "(2::nat) = Suc (Suc 0)" and three: "(3::nat) = Suc (Suc (Suc 0))" by simp_all
  show "(case r of Inl e \<Rightarrow> Some e | Inr x \<Rightarrow> None) =
     (case raised w (if res = [] then 2 else 3) of
        Some e \<Rightarrow> Some e
      | None \<Rightarrow> if res = [] then Some ErrNoRows else None)"
    using assms n1 n2 n3 s2 s3 unfolding two three
    by (cases a; cases b; cases c; cases res)
       (auto simp: db_QueryRow_def Row_Scan_def)
  fix n
  have t2: "raised w (Suc (Suc n)) =
      (case a of Some e \<Rightarrow> Some e | None \<Rightarrow> (case b of Some e \<Rightarrow> Some e | None \<Rightarrow> raised wb n))"
    using raised_step [OF n1, of "Suc n"] raised_step [OF n2, of n]
    by (cases a; cases b) simp_all
  have t3: "raised w (Suc (Suc (Suc n))) =
      (case a of Some e \<Rightarrow> Some e | None \<Rightarrow> (case b of Some e \<Rightarrow> Some e | None \<Rightarrow>
         (case c of Some e \<Rightarrow> Some e | None \<Rightarrow> raised wc n)))"
    using raised_step [OF n1, of "Suc (Suc n)"] raised_step [OF n2, of "Suc n"]
      raised_step [OF n3, of n]
    by (cases a; cases b; cases c) simp_all
  have e2: "2 + n = Suc (Suc n)" and e3: "3 + n = Suc (Suc (Suc n))" by simp_all
  show "(\<exists>e. r = Inl e \<and> e \<noteq> ErrNoRows) \<or>
          raised w ((if res = [] then 2 else 3) + n) = raised w2 n"
    using assms n1 n2 n3 t2 t3
    by (cases a; cases b; cases c; cases res)
       (auto simp: db_QueryRow_def Row_Scan_def e2 e3 dest: next_fault_not_ErrNoRows)
qed


lemma raised_not_ErrNoRows [simp]: "raised w n \<noteq> Some ErrNoRows"
  using raised_native [of w n ErrNoRows] by auto

lemma first_fault_mono: "first_fault fs n = Some m \<Longrightarrow> first_fault fs (n + k) = Some m"
  by (induction fs n rule: first_fault.induct) simp_all

lemma raised_mono: "raised w n = Some e \<Longrightarrow> raised w (n + k) = Some e"
  by (auto simp: raised_def first_fault_mono)

lemma raised_insert [simp]:
  "raised (insert_category c w) n = raised w n"
  "raised (insert_item a b d w) n = raised w n"
  by (simp_all add: raised_def insert_category_def insert_item_def)

lemma db_Exec_raised:
  assumes "db_Exec w stmt = (x, w')" and "\<And>v n. raised (stmt v) n = raised v n"
  shows "raised w (Suc n) = (case x of Some e \<Rightarrow> Some e | None \<Rightarrow> raised w' n)"
proof -
  obtain r w1 where n1: "next_fault w = (r, w1)" by (metis prod.exhaust)
  show ?thesis
  proof (cases r)
    case None
    with n1 assms(1) have "x = None" "w' = stmt w1" by (auto simp: db_Exec_def)
    with raised_step [OF n1, of n] None assms(2) show ?thesis by simp
  next
    case (Some e)
    with n1 assms(1) have "x = Some e" by (auto simp: db_Exec_def)
    with raised_step [OF n1, of n] Some show ?thesis by simp
  qed
qed

lemma GetItemById_raised:
  "snd (fst (GetItemById w k)) =
     (case raised w (if select_items_join_by_id w k = [] then 3 else 4) of
        Some e \<Rightarrow> Some e
      | None \<Rightarrow> if select_items_join_by_id w k = [] then Some ErrNoRows else None)"
proof -
  let ?res = "select_items_join_by_id w k"
  obtain r0 w1 where n1: "next_fault w = (r0, w1)" by (metis prod.exhaust)
  have sel: "select_items_join_by_id w1 k = ?res"
    using next_fault_reads [OF n1] by (simp add: select_reads)
  obtain row w2 where q: "db_QueryRow w1 ?res = (row, w2)" by (metis prod.exhaust)
  obtain r w3 where sc: "Row_Scan w2 row = (r, w3)" by (metis prod.exhaust)
  note qs = QueryRow_Scan_raised(1) [OF q sc]
  have len: "(if ?res = [] then 3 else 4) = Suc (if ?res = [] then 2 else 3)" by simp
  from raised_step [OF n1, of "if ?res = [] then 2 else 3"] n1 sel q sc qs
  show ?thesis unfolding len
    by (cases r0; cases r) (simp_all add: GetItemById_def sql_Open_def)
qed

lemma resolveOrCreate_raised:
  fixes w c
  defines "m \<equiv> (if select_category_id_by_name w c = [] then 6 else 3)"
  shows "snd (fst (resolveOrCreate w c)) = raised w m"
    and "snd (fst (resolveOrCreate w c)) = None \<Longrightarrow>
         raised w (m + n) = raised (snd (resolveOrCreate w c)) n"
proof -
  let ?res = "select_category_id_by_name w c"
  obtain row w1 where q: "db_QueryRow w ?res = (row, w1)" by (metis prod.exhaust)
  obtain r w2 where sc: "Row_Scan w1 row = (r, w2)" by (metis prod.exhaust)
  note qs = QueryRow_Scan_raised [OF q sc]
  note qspec = QueryRow_Scan_spec [OF q sc]
  have "snd (fst (resolveOrCreate w c)) = raised w m \<and>
     (snd (fst (resolveOrCreate w c)) = None \<longrightarrow>
         raised w (m + n) = raised (snd (resolveOrCreate w c)) n)"
  proof (cases r)
    case (Inr i)
    then have ne: "?res \<noteq> []" using qspec by simp
    then have m: "m = 3" by (simp add: m_def)
    have "raised w 3 = None" using qs(1) Inr ne by (simp split: option.splits)
    moreover have "raised w (3 + n) = raised w2 n" using qs(2) [of n] Inr ne by simp
    ultimately show ?thesis using Inr q sc m by (simp add: resolveOrCreate_def)
  next
    case (Inl e)
    show ?thesis
    proof (cases "e = ErrNoRows")
      case False
      have "raised w (if ?res = [] then 2 else 3) = Some e"
        using qs(1) Inl False by (auto split: option.splits if_splits)
      from raised_mono [OF this, of "m - (if ?res = [] then 2 else 3)"]
      have "raised w m = Some e" by (simp add: m_def split: if_splits)
      with False Inl q sc show ?thesis by (simp add: resolveOrCreate_def)
    next
      case True
      then have empty: "?res = []" using qspec Inl by simp
      then have m: "m = 6" by (simp add: m_def)
      have r2: "reads_only w w2" using qspec by simp
      have st1: "\<And>j. raised w (2 + j) = raised w2 j"
        using qs(2) Inl True empty by simp
      obtain x w3 where ex: "db_Exec w2 (insert_category c) = (x, w3)" by (metis prod.exhaust)
      have st2: "\<And>j. raised w2 (Suc j) = (case x of Some e \<Rightarrow> Some e | None \<Rightarrow> raised w3 j)"
        by (rule db_Exec_raised [OF ex]) simp
      show ?thesis
      proof (cases x)
        case (Some xe)
        have "raised w 6 = Some xe" using st1 [of "Suc 3"] st2 [of 3] Some by simp
        with Some True Inl q sc ex m show ?thesis by (simp add: resolveOrCreate_def)
      next
        case None
        then obtain v where v: "reads_only w2 v" "w3 = insert_category c v"
          using db_Exec_spec [OF ex] by auto
        have "select_category_id_by_name v c = []"
          using empty r2 v(1) by (simp add: select_reads)
        then have res3: "select_category_id_by_name w3 c \<noteq> []"
          using select_after_insert_category [of v c] v(2) by simp
        obtain row' w4 where q': "db_QueryRow w3 (select_category_id_by_name w3 c) = (row', w4)"
          by (metis prod.exhaust)
        obtain r' w5 where sc': "Row_Scan w4 row' = (r', w5)" by (metis prod.exhaust)
        note qs' = QueryRow_Scan_raised [OF q' sc']
        note qspec' = QueryRow_Scan_spec [OF q' sc']
        have st3: "raised w (3 + j) = raised w3 j" for j
        proof -
          have "raised w (2 + Suc j) = raised w2 (Suc j)" by (rule st1)
          also have "\<dots> = raised w3 j" using st2 [of j] None by simp
          finally show ?thesis by (simp add: numeral_3_eq_3)
        qed
        show ?thesis
        proof (cases r')
          case (Inr i)
          have "raised w3 3 = None" using qs'(1) Inr res3 by (simp split: option.splits)
          then have "raised w 6 = None" using st3 [of 3] by simp
          moreover have "raised w3 (3 + n) = raised w5 n" using qs'(2) [of n] Inr res3 by simp
          then have "raised w (6 + n) = raised w5 n" using st3 [of "3 + n"] by simp
          ultimately show ?thesis
            using Inr None True Inl q sc ex q' sc' m by (simp add: resolveOrCreate_def)
        next
          case inl: (Inl e')
          have "raised w3 3 = Some e'"
            using qs'(1) inl res3 by (simp split: option.splits)
          then have "raised w 6 = Some e'" using st3 [of 3] by simp
          with inl None True Inl q sc ex q' sc' m show ?thesis
            by (simp add: resolveOrCreate_def)
        qed
      qed
    qed
  qed
  then show "snd (fst (resolveOrCreate w c)) = raised w m"
    and "snd (fst (resolveOrCreate w c)) = None \<Longrightarrow>
         raised w (m + n) = raised (snd (resolveOrCreate w c)) n"
    by simp_all
qed

lemma Insert_raised:
  "fst (Insert w item) =
     raised w (if select_category_id_by_name w (Category item) = [] then 8 else 5)"
proof -
  let ?c = "Category item"
  let ?m = "if select_category_id_by_name w ?c = [] then 6 else (3::nat)"
  obtain r0 w1 where n1: "next_fault w = (r0, w1)" by (metis prod.exhaust)
  have sel: "select_category_id_by_name w1 ?c = select_category_id_by_name w ?c"
    using next_fault_reads [OF n1] by (simp add: select_reads)
  have len: "(if select_category_id_by_name w ?c = [] then 8 else 5) = Suc (?m + 1)" by simp
  note s0 = raised_step [OF n1, of "?m + 1"]
  show ?thesis
  proof (cases r0)
    case (Some e)
    with s0 n1 show ?thesis unfolding len by (simp add: Insert_def sql_Open_def)
  next
    case None
    obtain cid rerr w2 where rc: "resolveOrCreate w1 ?c = ((cid, rerr), w2)"
      by (metis prod.exhaust)
    have r1: "rerr = raised w1 ?m"
      using resolveOrCreate_raised(1) [of w1 ?c] rc sel by simp
    show ?thesis
    proof (cases rerr)
      case (Some e)
      then have "raised w1 (?m + 1) = Some e" using r1 raised_mono [of w1 ?m e 1] by simp
      with Some None s0 n1 rc show ?thesis unfolding len by (simp add: Insert_def sql_Open_def)
    next
      case none: None
      have r2: "raised w1 (?m + 1) = raised w2 1"
        using resolveOrCreate_raised(2) [of w1 ?c 1] rc sel none by simp
      obtain x w3 where ex: "db_Exec w2 (insert_item (Name item) cid (ImageName item)) = (x, w3)"
        by (metis prod.exhaust)
      have "raised w2 (Suc 0) = (case x of Some e \<Rightarrow> Some e | None \<Rightarrow> raised w3 0)"
        by (rule db_Exec_raised [OF ex]) simp
      with r2 none None s0 n1 rc ex show ?thesis unfolding len
        by (cases x) (simp_all add: Insert_def sql_Open_def)
    qed
  qed
qed


text \<open>
  C2, as stated, fails: when the database file cannot be opened, \<open>sql.Open\<close>
  succeeds, \<open>db.Query\<close> fails, and \<open>GetItems\<close> hands the driver's own error
  value to its caller; the name of the operation goes to the log only.
\<close>

theorem GetItems_returns_driver_error_unchanged:
  "fst (GetItems w_query_fails) = ([], Some (DriverError ''unable to open database file''))
   \<and> logs (snd (GetItems w_query_fails)) =
       [(''failed to prepare statement: '', DriverError ''unable to open database file'')]
   \<and> native_error w_query_fails (DriverError ''unable to open database file'')"
  by (simp add: GetItems_def sql_Open_def db_Query_def next_fault_def slog_Error_def
      w_query_fails_def w_empty_def native_error_def fault_of_def)

text \<open>
  C2, amended. Each method returns exactly the error of the first call into
  the engine that fails while it runs, as the driver raised it, and no error
  when none of its calls fails; \<open>GetItemById\<close> then returns \<open>sql.ErrNoRows\<close>
  when no row matches. \<open>GetItems\<close> and \<open>GetItemByKeyword\<close> make three calls and
  two more for every row of the result, \<open>Insert\<close> five calls when the category
  exists and eight when it does not, \<open>GetItemById\<close> three or four. So every
  returned error is a value of the engine, unchanged, and nothing is wrapped.
\<close>

theorem errors_are_native:
  "snd (fst (GetItems w)) = raised w (3 + 2 * length (select_items_join w))
   \<and> fst (Insert w item) =
       raised w (if select_category_id_by_name w (Category item) = [] then 8 else 5)
   \<and> snd (fst (GetItemByKeyword w keyword)) =
       raised w (3 + 2 * length (select_items_by_name w keyword))
   \<and> snd (fst (GetItemById w k)) =
       (case raised w (if select_items_join_by_id w k = [] then 3 else 4) of
          Some e \<Rightarrow> Some e
        | None \<Rightarrow> if select_items_join_by_id w k = [] then Some ErrNoRows else None)
   \<and> (\<forall>n e. raised w n = Some e \<longrightarrow> fault_of w e)
   \<and> (\<forall>e. snd (fst (GetItems w)) = Some e \<longrightarrow> fault_of w e)
   \<and> (\<forall>e. fst (Insert w item) = Some e \<longrightarrow> fault_of w e)
   \<and> (\<forall>e. snd (fst (GetItemByKeyword w keyword)) = Some e \<longrightarrow> fault_of w e)
   \<and> (\<forall>e. snd (fst (GetItemById w k)) = Some e \<longrightarrow> native_error w e)"
proof -
  have n: "\<forall>n e. raised w n = Some e \<longrightarrow> fault_of w e"
    by (blast intro: raised_native)
  have i: "\<forall>e. snd (fst (GetItemById w k)) = Some e \<longrightarrow> native_error w e"
    using n by (auto simp: GetItemById_raised native_error_def split: option.splits if_splits)
  from n i show ?thesis
    by (simp add: GetItems_raised Insert_raised GetItemByKeyword_raised GetItemById_raised)
qed

theorem errors_are_native_witness:
  "faults w_query_fails = [None, Some ''unable to open database file'']
   \<and> snd (fst (GetItems w_query_fails)) = Some (DriverError ''unable to open database file'')
   \<and> fst (Insert w_query_fails alice) = Some (DriverError ''unable to open database file'')
   \<and> snd (fst (GetItemByKeyword w_query_fails ''Alice'')) =
       Some (DriverError ''unable to open database file'')
   \<and> snd (fst (GetItemById w_query_fails 1)) = Some (DriverError ''unable to open database file'')
   \<and> snd (fst (GetItems (w_empty\<lparr>faults := [None, None, None, Some ''never raised'']\<rparr>))) = None
   \<and> snd (fst (GetItemById w_alice_bob 3)) = Some ErrNoRows
   \<and> native_error w_alice_bob ErrNoRows"
proof -
  let ?m = "''unable to open database file''"
  let ?late = "w_empty\<lparr>faults := [None, None, None, Some ''never raised'']\<rparr>"
  have f: "faults w_query_fails = [None, Some ?m]"
    by (simp add: w_query_fails_def)
  have r: "raised w_query_fails (Suc (Suc n)) = Some (DriverError ?m)" for n
    by (simp add: raised_def f)
  have e: "select_items_join w_query_fails = []" "select_items_by_name w_query_fails ''Alice'' = []"
    "select_category_id_by_name w_query_fails (Category alice) = []"
    "select_items_join_by_id w_query_fails 1 = []"
    by (simp_all add: select_items_join_def select_items_by_name_def inner_join_def
        select_category_id_by_name_def select_items_join_by_id_def w_query_fails_def w_empty_def)
  note t = errors_are_native [of w_query_fails alice "''Alice''" 1]
  have g: "snd (fst (GetItems w_query_fails)) = Some (DriverError ?m)"
    using t r [of 1] by (simp add: e numeral_3_eq_3)
  have i: "fst (Insert w_query_fails alice) = Some (DriverError ?m)"
    using t r [of 6] by (simp add: e eval_nat_numeral)
  have k: "snd (fst (GetItemByKeyword w_query_fails ''Alice'')) = Some (DriverError ?m)"
    using t r [of 1] by (simp add: e numeral_3_eq_3)
  have b: "snd (fst (GetItemById w_query_fails 1)) = Some (DriverError ?m)"
    using t r [of 1] by (simp add: e numeral_3_eq_3)
  have l: "snd (fst (GetItems ?late)) = None"
    using errors_are_native [of ?late alice "''Alice''" 1]
    by (simp add: raised_def select_items_join_def inner_join_def w_empty_def numeral_3_eq_3)
  have s: "select_items_join_by_id w_alice_bob 3 = []" "faults w_alice_bob = []"
    by (simp_all add: select_items_join_by_id_def select_items_join_def inner_join_def
        w_alice_bob_def w_alice_def w_empty_def)
  note u = errors_are_native [of w_alice_bob alice "''Alice''" 3]
  have n: "snd (fst (GetItemById w_alice_bob 3)) = Some ErrNoRows"
    using u by (simp add: s raised_def)
  with u have "native_error w_alice_bob ErrNoRows" by blast
  with f g i k b l n show ?thesis by simp
qed

lemma run_call_sched: "sched w (run_call w c)"
proof (cases c)
  case CallGetItems
  obtain xs err w' where g: "GetItems w = ((xs, err), w')" by (metis prod.exhaust)
  from GetItems_spec [OF g] g CallGetItems show ?thesis by (simp add: reads_only_def)
next
  case (CallInsert item)
  obtain err w' where g: "Insert w item = (err, w')" by (metis prod.exhaust)
  from Insert_spec [OF g] g CallInsert show ?thesis by simp
next
  case CallGetFileName
  then show ?thesis by simp
next
  case (CallGetItemByKeyword keyword)
  obtain xs err w' where g: "GetItemByKeyword w keyword = ((xs, err), w')" by (metis prod.exhaust)
  from GetItemByKeyword_spec [OF g] g CallGetItemByKeyword show ?thesis by (simp add: reads_only_def)
next
  case (CallGetItemById k)
  obtain x err w' where g: "GetItemById w k = ((x, err), w')" by (metis prod.exhaust)
  from GetItemById_spec [OF g] g CallGetItemById show ?thesis by (simp add: reads_only_def)
qed

lemma run_calls_self: "self (run_calls w cs) = self w"
proof (induction cs arbitrary: w)
  case Nil
  show ?case by simp
next
  case (Cons c cs)
  have "self (run_call w c) = self w" using run_call_sched [of w c] by (simp add: sched_def)
  with Cons.IH [of "run_call w c"] show ?case by simp
qed

text \<open>
  C10. \<open>GetFileName\<close> of a new repository is \<open>items.json\<close>, and no sequence of
  calls of the methods changes what \<open>GetFileName\<close> returns: on a repository made
  by \<open>NewItemRepository\<close> it is \<open>items.json\<close> after any sequence of calls.
\<close>

theorem GetFileName_constant:
  "GetFileName NewItemRepository = ''items.json''
   \<and> GetFileName (self (run_calls w cs)) = GetFileName (self w)
   \<and> GetFileName (self (run_calls (w\<lparr>self := NewItemRepository\<rparr>) cs)) = ''items.json''"
  by (simp add: run_calls_self GetFileName_def NewItemRepository_def)

lemma select_category_absent:
  "c \<notin> categories_name ` set (categories_tbl w) \<Longrightarrow> select_category_id_by_name w c = []"
  by (auto simp: select_category_id_by_name_def filter_empty_conv)

lemma resolved_absent:
  assumes "c \<notin> categories_name ` set (categories_tbl w)"
  shows "resolved_id w c = categories_id (new_category w c)"
    and "resolved_categories w c = categories_tbl w @ [new_category w c]"
  using select_category_absent [OF assms]
  by (simp_all add: resolved_id_def resolved_categories_def)

lemma new_category_fresh:
  "r \<in> set (categories_tbl w) \<Longrightarrow> categories_id r < categories_id (new_category w c)"
  by (simp add: new_category_def next_rowid_fresh)

lemma new_item_fresh:
  "r \<in> set (items_tbl w) \<Longrightarrow> items_id r < items_id (new_item w item)"
  by (simp add: new_item_def next_rowid_fresh)

lemma resolved_present:
  assumes "c \<notin> categories_name ` set (categories_tbl w)"
    and "categories_tbl w1 = categories_tbl w @ [new_category w c]"
  shows "resolved_id w1 c = categories_id (new_category w c)"
    and "resolved_categories w1 c = categories_tbl w1"
proof -
  have "filter (\<lambda>r. categories_name r = c) (categories_tbl w) = []"
    using assms(1) by (auto simp: filter_empty_conv)
  then have "select_category_id_by_name w1 c = [categories_id (new_category w c)]"
    using assms(2) by (simp add: select_category_id_by_name_def new_category_def)
  then show "resolved_id w1 c = categories_id (new_category w c)"
    and "resolved_categories w1 c = categories_tbl w1"
    by (simp_all add: resolved_id_def resolved_categories_def)
qed

text \<open>
  C5. When the category name is not in \<open>categories\<close>, two successful \<open>Insert\<close>
  calls with that name, one after the other, leave exactly one row for it:
  the first call appends the row, the second leaves the table as it is, and
  both new item rows carry the identifier of that one row.
\<close>

theorem Insert_twice_one_category:
  assumes "c \<notin> categories_name ` set (categories_tbl w)"
    and "Category item1 = c" and "Category item2 = c"
    and "Insert w item1 = (None, w1)" and "Insert w1 item2 = (None, w2)"
  shows "categories_tbl w1 = categories_tbl w @ [new_category w c]
     \<and> categories_tbl w2 = categories_tbl w1
     \<and> length (filter (\<lambda>r. categories_name r = c) (categories_tbl w2)) = 1
     \<and> items_category_id (last (items_tbl w1)) = categories_id (new_category w c)
     \<and> items_category_id (last (items_tbl w2)) = categories_id (new_category w c)"
proof -
  from Insert_spec [OF assms(4)] assms(2)
  have w1: "items_tbl w1 = items_tbl w @ [new_item w item1]"
    "categories_tbl w1 = resolved_categories w c"
    by simp_all
  then have c1: "categories_tbl w1 = categories_tbl w @ [new_category w c]"
    by (simp add: resolved_absent [OF assms(1)])
  from Insert_spec [OF assms(5)] assms(3)
  have w2: "items_tbl w2 = items_tbl w1 @ [new_item w1 item2]"
    "categories_tbl w2 = resolved_categories w1 c"
    by simp_all
  then have c2: "categories_tbl w2 = categories_tbl w1"
    by (simp add: resolved_present [OF assms(1) c1])
  have "filter (\<lambda>r. categories_name r = c) (categories_tbl w) = []"
    using assms(1) by (auto simp: filter_empty_conv)
  then have one: "length (filter (\<lambda>r. categories_name r = c) (categories_tbl w2)) = 1"
    by (simp add: c2 c1 new_category_def)
  have i1: "items_category_id (last (items_tbl w1)) = categories_id (new_category w c)"
    using w1(1) assms(2) by (simp add: new_item_def resolved_absent [OF assms(1)])
  have i2: "items_category_id (last (items_tbl w2)) = categories_id (new_category w c)"
    using w2(1) assms(3) by (simp add: new_item_def resolved_present [OF assms(1) c1])
  from c1 c2 one i1 i2 show ?thesis by simp
qed

theorem Insert_twice_one_category_witness:
  "''people'' \<notin> categories_name ` set (categories_tbl w_empty)
   \<and> Insert w_empty alice = (None, w_alice)
   \<and> Insert w_alice bob = (None, w_alice_bob)
   \<and> categories_tbl w_alice_bob = [\<lparr>categories_id = 1, categories_name = ''people''\<rparr>]
   \<and> map items_category_id (items_tbl w_alice_bob) = [1, 1]"
proof -
  have a: "''people'' \<notin> categories_name ` set (categories_tbl w_empty)"
    by (simp add: w_empty_def)
  have b: "Category alice = ''people''" "Category bob = ''people''"
    by (simp_all add: alice_def bob_def)
  from Insert_twice_one_category [OF a b Insert_w_empty_alice Insert_w_alice_bob]
  have "categories_tbl w_alice_bob = categories_tbl w_alice" by simp
  then have "categories_tbl w_alice_bob = [\<lparr>categories_id = 1, categories_name = ''people''\<rparr>]"
    by (simp add: w_alice_def w_empty_def)
  moreover have "map items_category_id (items_tbl w_alice_bob) = [1, 1]"
    by (simp add: w_alice_bob_def w_alice_def w_empty_def)
  ultimately show ?thesis
    using a Insert_w_empty_alice Insert_w_alice_bob by simp
qed

lemma join_new_item:
  assumes "c \<notin> categories_name ` set (categories_tbl w)"
    and "Category item = c"
    and "items_tbl w1 = items_tbl w @ [new_item w item]"
    and "categories_tbl w1 = categories_tbl w @ [new_category w c]"
  shows "select_items_join_by_id w1 (items_id (new_item w item)) = [(new_item w item, new_category w c)]"
proof -
  have "filter (\<lambda>i. items_id i = items_id (new_item w item)) (items_tbl w) = []"
    using new_item_fresh [of _ w item] by (fastforce simp: filter_empty_conv)
  then have its: "filter (\<lambda>i. items_id i = items_id (new_item w item)) (items_tbl w1) = [new_item w item]"
    using assms(3) by simp
  have cid: "items_category_id (new_item w item) = categories_id (new_category w c)"
    using assms(2) by (simp add: new_item_def resolved_absent [OF assms(1)])
  have "filter (\<lambda>r. categories_id (new_category w c) = categories_id r) (categories_tbl w) = []"
    using new_category_fresh [of _ w c] by (fastforce simp: filter_empty_conv)
  then have "filter (\<lambda>r. items_category_id (new_item w item) = categories_id r) (categories_tbl w1)
      = [new_category w c]"
    using assms(4) cid by simp
  with its show ?thesis
    by (simp add: select_items_join_by_id_alt inner_join_def)
qed

text \<open>
  C6. After a successful \<open>Insert\<close> of an item whose category name was not in
  the store, \<open>GetItemById\<close> on the identifier the store assigned returns the
  item with its original category name. It returns an error only when a call
  into the engine failed, and none when no call fails.
\<close>

theorem Insert_then_GetItemById:
  assumes "Category item \<notin> categories_name ` set (categories_tbl w)"
    and "Insert w item = (None, w1)"
  shows "items_id (last (items_tbl w1)) = next_rowid (map items_id (items_tbl w))
     \<and> (\<forall>e. snd (fst (GetItemById w1 (items_id (last (items_tbl w1))))) = Some e \<longrightarrow> fault_of w1 e)
     \<and> (snd (fst (GetItemById w1 (items_id (last (items_tbl w1))))) = None \<longrightarrow>
          fst (fst (GetItemById w1 (items_id (last (items_tbl w1))))) =
            \<lparr>ID = items_id (last (items_tbl w1)), Name = Name item,
             Category = Category item, ImageName = ImageName item\<rparr>)
     \<and> ((\<forall>f \<in> set (faults w1). f = None) \<longrightarrow>
          snd (fst (GetItemById w1 (items_id (last (items_tbl w1))))) = None)"
proof -
  let ?c = "Category item"
  let ?k = "items_id (last (items_tbl w1))"
  from Insert_spec [OF assms(2)]
  have w1: "items_tbl w1 = items_tbl w @ [new_item w item]"
    "categories_tbl w1 = categories_tbl w @ [new_category w ?c]"
    by (simp_all add: resolved_absent [OF assms(1)])
  then have k: "?k = items_id (new_item w item)" by simp
  have sel: "select_items_join_by_id w1 ?k = [(new_item w item, new_category w ?c)]"
    unfolding k by (rule join_new_item [OF assms(1) refl w1])
  obtain x err w2 where g: "GetItemById w1 ?k = ((x, err), w2)"
    by (metis prod.exhaust)
  note gs = GetItemById_spec [OF g]
  have e: "\<And>e. err = Some e \<Longrightarrow> fault_of w1 e"
    using gs sel by auto
  have x: "x = \<lparr>ID = ?k, Name = Name item, Category = ?c, ImageName = ImageName item\<rparr>"
    if "err = None"
    using gs sel that k by (simp add: joined_item_def new_item_def new_category_def)
  have q: "err = None" if "\<forall>f \<in> set (faults w1). f = None"
    using e no_faults_not_fault_of [OF that] by (cases err) auto
  from k e x q g show ?thesis by (simp add: new_item_def)
qed

theorem Insert_then_GetItemById_witness:
  "Category alice \<notin> categories_name ` set (categories_tbl w_empty)
   \<and> Insert w_empty alice = (None, w_alice)
   \<and> fst (GetItemById w_alice 1) =
       (\<lparr>ID = 1, Name = ''Alice'', Category = ''people'', ImageName = ''alice.jpg''\<rparr>, None)"
proof -
  have a: "Category alice \<notin> categories_name ` set (categories_tbl w_empty)"
    by (simp add: w_empty_def)
  have k: "items_id (last (items_tbl w_alice)) = 1" "faults w_alice = []"
    by (simp_all add: w_alice_def w_empty_def)
  from Insert_then_GetItemById [OF a Insert_w_empty_alice] k
  have "snd (fst (GetItemById w_alice 1)) = None"
    "fst (fst (GetItemById w_alice 1)) =
       \<lparr>ID = 1, Name = Name alice, Category = Category alice, ImageName = ImageName alice\<rparr>"
    by simp_all
  then have "fst (GetItemById w_alice 1) =
       (\<lparr>ID = 1, Name = ''Alice'', Category = ''people'', ImageName = ''alice.jpg''\<rparr>, None)"
    by (simp add: alice_def prod_eq_iff)
  with a Insert_w_empty_alice show ?thesis by simp
qed


text \<open>
  C8. After a successful \<open>Insert\<close> of an item, \<open>GetItemByKeyword\<close> on its name
  returns a sequence that contains the item, and on any other keyword a
  sequence without it. Every returned item has the keyword as its name and
  comes from a row of \<open>items\<close>; its \<open>Category\<close> is the decimal text of the
  stored category identifier, not the name of the category. The call fails
  only when a call into the engine failed.
\<close>

theorem GetItemByKeyword_exact_match:
  assumes "Insert w item = (None, w1)"
  shows "(\<forall>e. snd (fst (GetItemByKeyword w1 keyword)) = Some e \<longrightarrow> fault_of w1 e)
     \<and> ((\<forall>f \<in> set (faults w1). f = None) \<longrightarrow> snd (fst (GetItemByKeyword w1 keyword)) = None)
     \<and> (snd (fst (GetItemByKeyword w1 keyword)) = None \<longrightarrow>
          (keyword = Name item \<longrightarrow>
             \<lparr>ID = items_id (last (items_tbl w1)), Name = Name item,
              Category = FormatInt (items_category_id (last (items_tbl w1))),
              ImageName = ImageName item\<rparr> \<in> set (fst (fst (GetItemByKeyword w1 keyword))))
          \<and> (keyword \<noteq> Name item \<longrightarrow>
             (\<forall>x \<in> set (fst (fst (GetItemByKeyword w1 keyword))). ID x \<noteq> items_id (last (items_tbl w1))))
          \<and> (\<forall>x \<in> set (fst (fst (GetItemByKeyword w1 keyword))).
                Name x = keyword \<and>
                (\<exists>r \<in> set (items_tbl w1). ID x = items_id r \<and> Name x = items_name r
                   \<and> Category x = FormatInt (items_category_id r)
                   \<and> ImageName x = items_image_name r)))"
proof -
  from Insert_spec [OF assms]
  have w1: "items_tbl w1 = items_tbl w @ [new_item w item]" by simp
  then have l: "last (items_tbl w1) = new_item w item" by simp
  obtain xs err w2 where g: "GetItemByKeyword w1 keyword = ((xs, err), w2)"
    by (metis prod.exhaust)
  note gs = GetItemByKeyword_spec [OF g]
  have e: "\<And>e. err = Some e \<Longrightarrow> fault_of w1 e"
    using gs by auto
  have q: "err = None" if "\<forall>f \<in> set (faults w1). f = None"
    using e no_faults_not_fault_of [OF that] by (cases err) auto
  have xs: "xs = map raw_item (filter (\<lambda>i. items_name i = keyword) (items_tbl w1))"
    if "err = None"
    using gs that by (simp add: select_items_by_name_def)
  have a: "\<lparr>ID = items_id (last (items_tbl w1)), Name = Name item,
              Category = FormatInt (items_category_id (last (items_tbl w1))),
              ImageName = ImageName item\<rparr> \<in> set xs"
    if "err = None" "keyword = Name item"
  proof -
    have "raw_item (new_item w item) \<in> set xs"
      using that w1 by (simp add: xs new_item_def)
    then show ?thesis by (simp add: l raw_item_def new_item_def)
  qed
  have b: "ID x \<noteq> items_id (last (items_tbl w1))"
    if "err = None" "keyword \<noteq> Name item" "x \<in> set xs" for x
  proof -
    from that(1,3) obtain r where r: "r \<in> set (items_tbl w1)" "items_name r = keyword" "x = raw_item r"
      by (auto simp: xs)
    with that(2) have "r \<noteq> new_item w item" by (auto simp: new_item_def)
    with r(1) w1 have "r \<in> set (items_tbl w)" by simp
    from new_item_fresh [OF this, of item] r(3) show ?thesis
      by (simp add: l raw_item_def)
  qed
  have c: "Name x = keyword \<and>
        (\<exists>r \<in> set (items_tbl w1). ID x = items_id r \<and> Name x = items_name r
           \<and> Category x = FormatInt (items_category_id r) \<and> ImageName x = items_image_name r)"
    if "err = None" "x \<in> set xs" for x
    using that by (auto simp: xs raw_item_def)
  have r: "fst (fst (GetItemByKeyword w1 keyword)) = xs"
    "snd (fst (GetItemByKeyword w1 keyword)) = err"
    using g by simp_all
  show ?thesis
    unfolding r using e q a b c by blast
qed

theorem GetItemByKeyword_exact_match_witness:
  "Insert w_alice bob = (None, w_alice_bob)
   \<and> fst (GetItemByKeyword w_alice_bob ''Bob'') =
       ([\<lparr>ID = 2, Name = ''Bob'', Category = ''1'', ImageName = ''bob.jpg''\<rparr>], None)
   \<and> \<lparr>ID = 2, Name = ''Bob'', Category = ''1'', ImageName = ''bob.jpg''\<rparr>
       \<in> set (fst (fst (GetItemByKeyword w_alice_bob ''Bob'')))
   \<and> fst (GetItemByKeyword w_alice_bob ''Alice'') =
       ([\<lparr>ID = 1, Name = ''Alice'', Category = ''1'', ImageName = ''alice.jpg''\<rparr>], None)"
proof -
  have f: "FormatInt 1 = ''1''"
    by (simp add: FormatInt_def FormatUint.simps)
  have g: "fst (GetItemByKeyword w_alice_bob ''Bob'') =
       ([\<lparr>ID = 2, Name = ''Bob'', Category = ''1'', ImageName = ''bob.jpg''\<rparr>], None)"
    "fst (GetItemByKeyword w_alice_bob ''Alice'') =
       ([\<lparr>ID = 1, Name = ''Alice'', Category = ''1'', ImageName = ''alice.jpg''\<rparr>], None)"
    by (simp_all add: GetItemByKeyword_quiet select_items_by_name_def raw_item_def f
        w_alice_bob_def w_alice_def w_empty_def)
  have l: "last (items_tbl w_alice_bob) =
      \<lparr>items_id = 2, items_name = ''Bob'', items_category_id = 1, items_image_name = ''bob.jpg''\<rparr>"
    by (simp add: w_alice_bob_def)
  from GetItemByKeyword_exact_match [OF Insert_w_alice_bob, of "''Bob''"] g(1)
  have "\<lparr>ID = 2, Name = ''Bob'', Category = ''1'', ImageName = ''bob.jpg''\<rparr>
       \<in> set (fst (fst (GetItemByKeyword w_alice_bob ''Bob'')))"
    by (simp add: l f bob_def)
  with g Insert_w_alice_bob show ?thesis by simp
qed

section \<open>Properties of the request parser\<close>

text \<open>
  C3. A body with a non-empty \<open>name\<close>, a non-empty \<open>category\<close> and a non-empty
  \<open>image\<close> part parses to the request made of these three values.
\<close>

theorem parseAddItemRequest_valid:
  assumes "FormValue r ''name'' = name" and "FormValue r ''category'' = category"
    and "FormFile r ''image'' = Some img"
    and "name \<noteq> []" and "category \<noteq> []" and "img \<noteq> []"
  shows "parseAddItemRequest r = Inr \<lparr>reqName = name, reqCategory = category, reqImage = img\<rparr>"
  using assms by (simp add: parseAddItemRequest_def)

theorem parseAddItemRequest_valid_witness:
  "parseAddItemRequest (test_body ''Alice'' ''people'' (bytes_of ''dummy image data'')) =
     Inr \<lparr>reqName = ''Alice'', reqCategory = ''people'', reqImage = bytes_of ''dummy image data''\<rparr>
   \<and> bytes_of ''dummy image data'' \<noteq> []"
proof -
  let ?b = "test_body ''Alice'' ''people'' (bytes_of ''dummy image data'')"
  have i: "bytes_of ''dummy image data'' \<noteq> []" by (simp add: bytes_of_def)
  have v: "FormValue ?b ''name'' = ''Alice''" "FormValue ?b ''category'' = ''people''"
    by (simp_all add: FormValue_def test_body_def)
  have f: "FormFile ?b ''image'' = Some (bytes_of ''dummy image data'')"
    using i by (simp add: FormFile_def test_body_def)
  from parseAddItemRequest_valid [OF v f _ _ i] i show ?thesis by simp
qed

text \<open>
  C4. A body whose \<open>name\<close> or \<open>category\<close> is empty, or whose \<open>image\<close> part is
  absent or empty, is rejected with a validation error and yields no request.
  A body with an empty \<open>image\<close> part is rejected exactly as the same body
  without the part.
\<close>

theorem parseAddItemRequest_invalid:
  assumes "FormValue r ''name'' = [] \<or> FormValue r ''category'' = []
     \<or> FormFile r ''image'' = None \<or> FormFile r ''image'' = Some []"
  shows "(\<exists>field. parseAddItemRequest r = Inl (ValidationError field))
     \<and> (\<forall>req. parseAddItemRequest r \<noteq> Inr req)
     \<and> parseAddItemRequest (r\<lparr>form_files := (''image'', []) # fs\<rparr>)
         = parseAddItemRequest (r\<lparr>form_files := filter (\<lambda>p. fst p \<noteq> ''image'') fs\<rparr>)"
proof -
  have "map_of (filter (\<lambda>p. fst p \<noteq> ''image'') fs) ''image'' = None"
    by (induction fs) auto
  then have same: "parseAddItemRequest (r\<lparr>form_files := (''image'', []) # fs\<rparr>)
         = parseAddItemRequest (r\<lparr>form_files := filter (\<lambda>p. fst p \<noteq> ''image'') fs\<rparr>)"
    by (simp add: parseAddItemRequest_def FormValue_def FormFile_def Let_def)
  from assms have "\<exists>field. parseAddItemRequest r = Inl (ValidationError field)"
    by (auto simp: parseAddItemRequest_def Let_def split: option.splits)
  with same show ?thesis by auto
qed

theorem parseAddItemRequest_invalid_witness:
  "FormValue (test_body [] [] []) ''name'' = []
   \<and> parseAddItemRequest (test_body [] [] []) = Inl (ValidationError ''name'')
   \<and> FormFile (test_body ''Alice'' ''people'' []) ''image'' = None
   \<and> parseAddItemRequest (test_body ''Alice'' ''people'' []) = Inl (ValidationError ''image'')
   \<and> parseAddItemRequest ((test_body ''Alice'' ''people'' [])\<lparr>form_files := [(''image'', [])]\<rparr>)
       = Inl (ValidationError ''image'')"
proof -
  have a: "FormValue (test_body [] [] []) ''name'' = []"
    by (simp add: FormValue_def test_body_def)
  have b: "FormFile (test_body ''Alice'' ''people'' []) ''image'' = None"
    by (simp add: FormFile_def test_body_def)
  have c: "parseAddItemRequest (test_body [] [] []) = Inl (ValidationError ''name'')"
    "parseAddItemRequest (test_body ''Alice'' ''people'' []) = Inl (ValidationError ''image'')"
    by (simp_all add: parseAddItemRequest_def FormValue_def FormFile_def test_body_def)
  from parseAddItemRequest_invalid [of "test_body ''Alice'' ''people'' []" "[]"] b
  have "parseAddItemRequest ((test_body ''Alice'' ''people'' [])\<lparr>form_files := [(''image'', [])]\<rparr>)
       = parseAddItemRequest ((test_body ''Alice'' ''people'' [])\<lparr>form_files := []\<rparr>)"
    by simp
  also have "\<dots> = Inl (ValidationError ''image'')"
    by (simp add: parseAddItemRequest_def FormValue_def FormFile_def test_body_def)
  finally show ?thesis using a b c by simp
qed

section \<open>Properties of the image store\<close>

lemma StoreImage_returns_nil: "fst (StoreImage fs file_name img) = None"
  by (simp add: StoreImage_def Let_def split: prod.splits)

text \<open>
  C1. The claim asks \<open>StoreImage\<close> to return an error when the file cannot be
  created or the write is incomplete. At a path where \<open>os.Create\<close> fails, and
  at a device that accepts two of three bytes, the code logs the failure and
  still returns \<open>nil\<close>.
\<close>

theorem StoreImage_swallows_failures:
  "fst (os_Create fs_readonly ''/missing/a.jpg'') = (None, Some (PathError ''open'' ''/missing/a.jpg''))
   \<and> fst (StoreImage fs_readonly ''/missing/a.jpg'' [1, 2, 3]) = None
   \<and> fs_log (snd (StoreImage fs_readonly ''/missing/a.jpg'' [1, 2, 3]))
       = [(''failed to create image file: '', PathError ''open'' ''/missing/a.jpg''),
          (''failed to write image: '', ErrInvalid)]
   \<and> fst (StoreImage fs_full ''a.jpg'' [1, 2, 3]) = None
   \<and> files (snd (StoreImage fs_full ''a.jpg'' [1, 2, 3])) ''a.jpg'' = Some [1, 2]
   \<and> fs_log (snd (StoreImage fs_full ''a.jpg'' [1, 2, 3]))
       = [(''failed to write image: '', PathError ''write'' ''a.jpg'')]"
  by (simp add: StoreImage_def os_Create_def File_Write_def slog_Error_fs_def
      fs_readonly_def fs_full_def Let_def)

end
